theory Spec2Isabelle
  imports Main "HOL-Library.Char_ord" "HOL-Library.List_Lexorder" "HOL-Library.Sublist"
begin

section \<open>Text: the operations of Python's \<open>str\<close> that verify.py uses\<close>

text \<open>
  A Python \<open>str\<close> is a sequence of code points. The device dialect is ASCII; the model
  takes text to be a list of code points below 256 (\<^typ>\<open>string\<close>), and gives each
  operation the behaviour Python has on that range. Comparison of two \<open>str\<close> values is
  lexicographic by code point, which is the order of \<open>List_Lexorder\<close> over \<open>Char_ord\<close>.
\<close>

definition isspace :: "char \<Rightarrow> bool" where
  \<comment> \<open>\<open>str.isspace\<close> on one code point: TAB..CR, FS..US, SPACE, NEL, NBSP.\<close>
  "isspace c = (let n = (of_char c :: nat) in
      (9 \<le> n \<and> n \<le> 13) \<or> (28 \<le> n \<and> n \<le> 32) \<or> n = 133 \<or> n = 160)"

definition is_linebreak :: "char \<Rightarrow> bool" where
  \<comment> \<open>The line boundaries of \<open>str.splitlines\<close>: LF, VT, FF, CR, FS, GS, RS, NEL.\<close>
  "is_linebreak c = (let n = (of_char c :: nat) in
      (10 \<le> n \<and> n \<le> 13) \<or> (28 \<le> n \<and> n \<le> 30) \<or> n = 133)"

definition lower_char :: "char \<Rightarrow> char" where
  \<comment> \<open>\<open>str.lower\<close> on one code point: A..Z and the Latin-1 capitals move up by 32.\<close>
  "lower_char c = (let n = (of_char c :: nat) in
      if (65 \<le> n \<and> n \<le> 90) \<or> (192 \<le> n \<and> n \<le> 214) \<or> (216 \<le> n \<and> n \<le> 222)
      then char_of (n + 32) else c)"

definition str_lower :: "string \<Rightarrow> string" where
  "str_lower s = map lower_char s"

text \<open>\<open>sub in s\<close>: \<open>sub\<close> occurs in \<open>s\<close> as a contiguous run, tried at every position.\<close>

fun str_contains :: "string \<Rightarrow> string \<Rightarrow> bool" where
  "str_contains sub [] = (sub = [])"
| "str_contains sub (c # cs) = (prefix sub (c # cs) \<or> str_contains sub cs)"

text \<open>
  \<open>s.split()\<close> with no separator: runs of whitespace separate the tokens, leading and
  trailing whitespace gives no empty token. \<open>tok\<close> is the token being read.
\<close>

fun split_from :: "string \<Rightarrow> string \<Rightarrow> string list" where
  "split_from tok [] = (if tok = [] then [] else [tok])"
| "split_from tok (c # cs) =
     (if isspace c then (if tok = [] then split_from [] cs else tok # split_from [] cs)
      else split_from (tok @ [c]) cs)"

definition str_split :: "string \<Rightarrow> string list" where
  "str_split s = split_from [] s"

text \<open>
  \<open>s.splitlines()\<close>: every line boundary ends a line, CR LF counts as one boundary, and
  a boundary at the very end opens no further line. \<open>cur\<close> is the line being read.
\<close>

fun splitlines_from :: "string \<Rightarrow> string \<Rightarrow> string list" where
  "splitlines_from cur [] = (if cur = [] then [] else [cur])"
| "splitlines_from cur [c] = (if is_linebreak c then [cur] else [cur @ [c]])"
| "splitlines_from cur (c # d # cs) =
     (if c = CHR 0x0D \<and> d = CHR 0x0A then cur # splitlines_from [] cs
      else if is_linebreak c then cur # splitlines_from [] (d # cs)
      else splitlines_from (cur @ [c]) (d # cs))"

definition str_splitlines :: "string \<Rightarrow> string list" where
  "str_splitlines s = splitlines_from [] s"

definition sort_reverse :: "string list \<Rightarrow> string list" where
  \<comment> \<open>\<open>list.sort(reverse=True)\<close>: reverse, sort stably ascending, reverse again.\<close>
  "sort_reverse xs = rev (sort (rev xs))"


section \<open>Exceptions, the transport, and the instance state\<close>

text \<open>
  Every exception that reaches the code is a subclass of \<open>Exception\<close>; each carries the
  text that \<open>str(e)\<close> gives.
\<close>

datatype exn =
    NetmikoTimeoutException string
  | NetmikoAuthenticationException string
  | OtherException string
  | IndexError string
  | AttributeError string

fun str_exn :: "exn \<Rightarrow> string" where
  "str_exn (NetmikoTimeoutException m) = m"
| "str_exn (NetmikoAuthenticationException m) = m"
| "str_exn (OtherException m) = m"
| "str_exn (IndexError m) = m"
| "str_exn (AttributeError m) = m"

record device_dict =
  device_type :: string
  host :: string
  username :: string
  password :: string

type_synonym session = nat

text \<open>
  netmiko is not part of the repository, so the transport is a parameter: the three
  operations the code calls, over a world \<open>'w\<close> of their own (the device and the network).
  Each may return or raise, and each may change the world. The second argument of
  \<open>nm_send_command\<close> is the command, the third is \<open>read_timeout\<close> (\<open>None\<close> when the
  call leaves it at its default).
\<close>

record 'w netmiko =
  nm_ConnectHandler :: "device_dict \<Rightarrow> 'w \<Rightarrow> (exn + session) \<times> 'w"
  nm_send_command :: "session \<Rightarrow> string \<Rightarrow> nat option \<Rightarrow> 'w \<Rightarrow> (exn + string) \<times> 'w"
  nm_disconnect :: "session \<Rightarrow> 'w \<Rightarrow> (exn + unit) \<times> 'w"

text \<open>The calls made to the transport, in order; opening records what came back.\<close>

datatype call =
    ConnectHandler_call "exn + session"
  | send_command_call session string "nat option"
  | disconnect_call session

datatype levelname = INFO | ERROR

text \<open>
  The fields of a \<open>CiscoISR4331\<close> instance (\<open>device\<close>, \<open>hostname\<close>, \<open>connection\<close>,
  \<open>iosbootfile\<close>), followed by what lies outside it: the transport's world, the calls
  made so far, the log file and standard output. \<open>logging.debug\<close> writes nothing, since
  the log is configured at level INFO.
\<close>

record 'w state =
  device :: device_dict
  hostname :: string
  connection :: "session option"
  iosbootfile :: "string option"
  world :: 'w
  calls :: "call list"
  logfile :: "(levelname \<times> string) list"
  stdout :: "string list"

definition init :: "string \<Rightarrow> string \<Rightarrow> string \<Rightarrow> string \<Rightarrow> 'w \<Rightarrow> 'w state" where
  \<comment> \<open>\<open>__init__\<close>, with \<open>device_type\<close> at its default, in a world with nothing done yet.\<close>
  "init hostname' host' username' password' w =
     \<lparr>device = \<lparr>device_type = ''cisco_ios'', host = host', username = username',
                 password = password'\<rparr>,
      hostname = hostname', connection = None, iosbootfile = None,
      world = w, calls = [], logfile = [], stdout = []\<rparr>"

definition logging_info :: "string \<Rightarrow> 'w state \<Rightarrow> 'w state" where
  "logging_info msg self = self\<lparr>logfile := logfile self @ [(INFO, msg)]\<rparr>"

definition logging_error :: "string \<Rightarrow> 'w state \<Rightarrow> 'w state" where
  "logging_error msg self = self\<lparr>logfile := logfile self @ [(ERROR, msg)]\<rparr>"

definition print :: "string \<Rightarrow> 'w state \<Rightarrow> 'w state" where
  "print msg self = self\<lparr>stdout := stdout self @ [msg]\<rparr>"

definition truthy :: "string option \<Rightarrow> bool" where
  \<comment> \<open>The truth value of \<open>self.iosbootfile\<close>: \<open>None\<close> and the empty string are false.\<close>
  "truthy v = (case v of None \<Rightarrow> False | Some s \<Rightarrow> s \<noteq> [])"

definition fmt :: "string option \<Rightarrow> string" where
  \<comment> \<open>\<open>{self.iosbootfile}\<close> inside an f-string.\<close>
  "fmt v = (case v of None \<Rightarrow> ''None'' | Some s \<Rightarrow> s)"


section \<open>The methods of \<open>CiscoISR4331\<close>\<close>

definition connect :: "'w netmiko \<Rightarrow> 'w state \<Rightarrow> (exn + bool) \<times> 'w state" where
  "connect nm self =
     (case nm_ConnectHandler nm (device self) (world self) of
        (Inr c, w) \<Rightarrow>
          (Inr True,
           logging_info (''Successfully connected to '' @ host (device self))
             (self\<lparr>connection := Some c, world := w,
                    calls := calls self @ [ConnectHandler_call (Inr c)]\<rparr>))
      | (Inl e, w) \<Rightarrow>
          (let self' = self\<lparr>world := w, calls := calls self @ [ConnectHandler_call (Inl e)]\<rparr>
           in case e of
                NetmikoTimeoutException m \<Rightarrow>
                  (Inr False,
                   logging_error (''Timeout error connecting to '' @ host (device self)) self')
              | NetmikoAuthenticationException m \<Rightarrow>
                  (Inr False,
                   logging_error (''Authentication error connecting to '' @ host (device self))
                     self')
              | _ \<Rightarrow>
                  (Inr False,
                   logging_error (''Error connecting to '' @ host (device self) @ '': ''
                                    @ str_exn e) self')))"

text \<open>
  \<open>disconnect\<close> has no handler: what \<open>self.connection.disconnect()\<close> raises leaves the
  method. A connection object is true in \<open>if self.connection\<close>.
\<close>

definition disconnect :: "'w netmiko \<Rightarrow> 'w state \<Rightarrow> (exn + unit) \<times> 'w state" where
  "disconnect nm self =
     (case connection self of
        None \<Rightarrow> (Inr (), self)
      | Some c \<Rightarrow>
          (case nm_disconnect nm c (world self) of
             (Inl e, w) \<Rightarrow>
               (Inl e, self\<lparr>world := w, calls := calls self @ [disconnect_call c]\<rparr>)
           | (Inr u, w) \<Rightarrow>
               (Inr (),
                logging_info (''Disconnected from '' @ host (device self))
                  (self\<lparr>world := w, calls := calls self @ [disconnect_call c]\<rparr>))))"

text \<open>
  \<open>self.connection.send_command(cmd, read_timeout)\<close>. With \<open>self.connection\<close> still
  \<open>None\<close> the attribute lookup raises and nothing is sent.
\<close>

definition connection_send_command ::
  "'w netmiko \<Rightarrow> string \<Rightarrow> nat option \<Rightarrow> 'w state \<Rightarrow> (exn + string) \<times> 'w state" where
  "connection_send_command nm cmd read_timeout self =
     (case connection self of
        None \<Rightarrow>
          (Inl (AttributeError (CHR 0x27 # ''NoneType'' @ CHR 0x27 # '' object has no attribute ''
                                  @ CHR 0x27 # ''send_command'' @ [CHR 0x27])), self)
      | Some c \<Rightarrow>
          (case nm_send_command nm c cmd read_timeout (world self) of
             (r, w) \<Rightarrow>
               (r, self\<lparr>world := w,
                        calls := calls self @ [send_command_call c cmd read_timeout]\<rparr>)))"

text \<open>
  The loop of \<open>find_latest_iosxe_file\<close> over the lines of the listing. \<open>line.split()[-1]\<close>
  raises IndexError on an empty token list.
\<close>

fun collect_ios_files :: "string list \<Rightarrow> string list \<Rightarrow> exn + string list" where
  "collect_ios_files ios_files [] = Inr ios_files"
| "collect_ios_files ios_files (line # lines) =
     (if str_contains ''.bin'' line then
        (case str_split line of
           [] \<Rightarrow> Inl (IndexError ''list index out of range'')
         | t # ts \<Rightarrow> collect_ios_files (ios_files @ [last (t # ts)]) lines)
      else collect_ios_files ios_files lines)"

definition find_latest_iosxe_file_try ::
  "'w netmiko \<Rightarrow> 'w state \<Rightarrow> (exn + bool) \<times> 'w state" where
  \<comment> \<open>The body of the \<open>try\<close>.\<close>
  "find_latest_iosxe_file_try nm self =
     (case connection_send_command nm ''dir bootflash:'' None self of
        (Inl e, self1) \<Rightarrow> (Inl e, self1)
      | (Inr output, self1) \<Rightarrow>
          (case collect_ios_files [] (str_splitlines output) of
             Inl e \<Rightarrow> (Inl e, self1)
           | Inr ios_files \<Rightarrow>
               if ios_files \<noteq> [] then
                 (case sort_reverse ios_files of
                    [] \<Rightarrow> (Inl (IndexError ''list index out of range''), self1)
                  | f # fs \<Rightarrow>
                      (Inr True,
                       logging_info (''Latest IOS-XE image found: '' @ f)
                         (self1\<lparr>iosbootfile := Some f\<rparr>)))
               else
                 (Inr False,
                  logging_error ''No IOS-XE .bin files found in bootflash.'' self1)))"

definition find_latest_iosxe_file ::
  "'w netmiko \<Rightarrow> 'w state \<Rightarrow> (exn + bool) \<times> 'w state" where
  "find_latest_iosxe_file nm self =
     (case find_latest_iosxe_file_try nm self of
        (Inl e, self') \<Rightarrow>
          (Inr False,
           logging_error (''Error finding latest IOS-XE file: '' @ str_exn e) self')
      | (Inr b, self') \<Rightarrow> (Inr b, self'))"

definition validate_boot_statement_try ::
  "'w netmiko \<Rightarrow> 'w state \<Rightarrow> (exn + bool) \<times> 'w state" where
  "validate_boot_statement_try nm self =
     (if \<not> truthy (iosbootfile self) then
        (Inr False,
         logging_error ''No latest IOS-XE image found to validate boot statement.'' self)
      else
        (case connection_send_command nm ''show run | include boot system'' None self of
           (Inl e, self1) \<Rightarrow> (Inl e, self1)
         | (Inr output, self1) \<Rightarrow>
             (let expected_boot = ''boot system flash bootflash:'' @ fmt (iosbootfile self1)
              in if str_contains expected_boot output then
                   (Inr True,
                    logging_info (''Boot statement matches the latest IOS-XE image: ''
                                    @ fmt (iosbootfile self1)) self1)
                 else
                   (Inr False,
                    logging_error (''Boot statement does not match the latest image: ''
                                     @ fmt (iosbootfile self1)) self1))))"

definition validate_boot_statement ::
  "'w netmiko \<Rightarrow> 'w state \<Rightarrow> (exn + bool) \<times> 'w state" where
  "validate_boot_statement nm self =
     (case validate_boot_statement_try nm self of
        (Inl e, self') \<Rightarrow>
          (Inr False,
           logging_error (''Error validating boot statement: '' @ str_exn e) self')
      | (Inr b, self') \<Rightarrow> (Inr b, self'))"

definition verify_ios_image_signature_try ::
  "'w netmiko \<Rightarrow> 'w state \<Rightarrow> (exn + bool) \<times> 'w state" where
  "verify_ios_image_signature_try nm self =
     (if \<not> truthy (iosbootfile self) then
        (Inr False, logging_error ''No latest IOS-XE image found to verify.'' self)
      else
        (case connection_send_command nm (''verify bootflash:'' @ fmt (iosbootfile self))
                (Some 1000) self of
           (Inl e, self1) \<Rightarrow> (Inl e, self1)
         | (Inr output, self1) \<Rightarrow>
             if str_contains ''signature successfully'' (str_lower output) then
               (Inr True,
                logging_info (''Image '' @ fmt (iosbootfile self1)
                                @ '' verification successful.'') self1)
             else
               (let error_msg = ''Error: Signature verification failed for ''
                                  @ fmt (iosbootfile self1) @ ''.''
                in (Inr False, print error_msg (logging_error error_msg self1)))))"

definition verify_ios_image_signature ::
  "'w netmiko \<Rightarrow> 'w state \<Rightarrow> (exn + bool) \<times> 'w state" where
  "verify_ios_image_signature nm self =
     (case verify_ios_image_signature_try nm self of
        (Inl e, self') \<Rightarrow>
          (Inr False,
           logging_error (''Error during image verification: '' @ str_exn e) self')
      | (Inr b, self') \<Rightarrow> (Inr b, self'))"

text \<open>
  \<open>run_validation\<close> has no handler of its own: an exception out of a method it calls
  leaves it at that point.
\<close>

definition run_validation :: "'w netmiko \<Rightarrow> 'w state \<Rightarrow> (exn + bool) \<times> 'w state" where
  "run_validation nm self =
     (case connect nm self of
        (Inl e, s1) \<Rightarrow> (Inl e, s1)
      | (Inr connected, s1) \<Rightarrow>
          if connected then
            (case find_latest_iosxe_file nm s1 of
               (Inl e, s2) \<Rightarrow> (Inl e, s2)
             | (Inr latest_file_found, s2) \<Rightarrow>
                 if latest_file_found then
                   (case validate_boot_statement nm s2 of
                      (Inl e, s3) \<Rightarrow> (Inl e, s3)
                    | (Inr boot_valid, s3) \<Rightarrow>
                        if boot_valid then
                          (case verify_ios_image_signature nm s3 of
                             (Inl e, s4) \<Rightarrow> (Inl e, s4)
                           | (Inr signature_valid, s4) \<Rightarrow>
                               (case disconnect nm s4 of
                                  (Inl e, s5) \<Rightarrow> (Inl e, s5)
                                | (Inr u, s5) \<Rightarrow>
                                    if signature_valid then
                                      (Inr True,
                                       logging_info
                                         (''Validation complete: All checks passed successfully on ''
                                            @ hostname s5 @ ''.'') s5)
                                    else
                                      (Inr False,
                                       logging_error
                                         (''Validation failed: Signature verification failed on ''
                                            @ hostname s5 @ ''.'') s5)))
                        else
                          (case disconnect nm
                                  (logging_error
                                     (''Validation failed: Boot statement does not match on ''
                                        @ hostname s3) s3) of
                             (Inl e, s4) \<Rightarrow> (Inl e, s4)
                           | (Inr u, s4) \<Rightarrow> (Inr False, s4)))
                 else
                   (case disconnect nm
                           (logging_error
                              (''Validation failed: No valid IOS-XE image found on ''
                                 @ hostname s2 @ ''.'') s2) of
                      (Inl e, s3) \<Rightarrow> (Inl e, s3)
                    | (Inr u, s3) \<Rightarrow> (Inr False, s3)))
          else
            (Inr False,
             logging_error (''Connection to device failed, cannot run validation on ''
                              @ hostname s1 @ ''.'') s1))"


section \<open>The specification's Candidate Image Set, and call counts\<close>

text \<open>
  The Candidate Image Set as the specification words it (section 4.1): of every line that
  contains the marker, the final whitespace-delimited token. It is stated apart from the
  loop of the code, to be compared with it.
\<close>

definition spec_candidates :: "string \<Rightarrow> string list" where
  "spec_candidates listing =
     map (\<lambda>line. last (str_split line)) (filter (str_contains ''.bin'') (str_splitlines listing))"

text \<open>
  What the specification means by the final whitespace-delimited token of a line: a
  non-empty run without whitespace, followed by whitespace only, and preceded by
  whitespace or by nothing.
\<close>

definition spec_final_token :: "string \<Rightarrow> string \<Rightarrow> bool" where
  "spec_final_token line t \<longleftrightarrow>
     t \<noteq> [] \<and> (\<forall>c \<in> set t. \<not> isspace c) \<and>
     (\<exists>pre suf. line = pre @ t @ suf \<and> (\<forall>c \<in> set suf. isspace c)
                  \<and> (pre = [] \<or> isspace (last pre)))"

text \<open>
  What the specification means by a phrase occurring in any letter casing: each character
  of the text is the phrase's own, or the capital of the phrase's small letter.
\<close>

definition spec_same_letter :: "char \<Rightarrow> char \<Rightarrow> bool" where
  "spec_same_letter c p \<longleftrightarrow>
     c = p \<or> (97 \<le> (of_char p :: nat) \<and> (of_char p :: nat) \<le> 122
              \<and> (of_char c :: nat) + 32 = of_char p)"

definition spec_contains_any_case :: "string \<Rightarrow> string \<Rightarrow> bool" where
  "spec_contains_any_case phrase text \<longleftrightarrow>
     (\<exists>ps u ss. text = ps @ u @ ss \<and> list_all2 spec_same_letter u phrase)"

fun is_opened :: "call \<Rightarrow> bool" where
  "is_opened (ConnectHandler_call (Inr c)) = True"
| "is_opened x = False"

fun is_closed :: "call \<Rightarrow> bool" where
  "is_closed (disconnect_call c) = True"
| "is_closed x = False"

fun is_command :: "call \<Rightarrow> bool" where
  "is_command (send_command_call c cmd t) = True"
| "is_command x = False"

definition open_count :: "call list \<Rightarrow> nat" where
  \<comment> \<open>Sessions that were opened: calls of \<open>ConnectHandler\<close> that returned a connection.\<close>
  "open_count tr = length (filter is_opened tr)"

definition close_count :: "call list \<Rightarrow> nat" where
  "close_count tr = length (filter is_closed tr)"


section \<open>A scripted transport\<close>

text \<open>
  A transport for running the methods on concrete inputs: opening and closing give fixed
  results, every command is answered by a table, and the world counts the operations.
  \<open>router\<close> is the instance of the example at the end of verify.py.
\<close>

definition scripted ::
  "(exn + session) \<Rightarrow> (string \<Rightarrow> exn + string) \<Rightarrow> (exn + unit) \<Rightarrow> nat netmiko" where
  "scripted opening reply closing =
     \<lparr>nm_ConnectHandler = (\<lambda>d w. (opening, Suc w)),
      nm_send_command = (\<lambda>c cmd t w. (reply cmd, Suc w)),
      nm_disconnect = (\<lambda>c w. (closing, Suc w))\<rparr>"

definition router :: "nat state" where
  "router = init ''howdy'' ''127.0.0.1'' ''MyUser'' ''MyPass'' 0"

definition example_listing :: string where
  \<comment> \<open>A listing with the two images of the specification's example, the older one last.\<close>
  "example_listing =
     ''Directory of bootflash:/\<newline>''
     @ ''12 -rw- 620 isr4300-17.06.01.bin\<newline>''
     @ ''11 -rw- 540 isr4300-17.03.04.bin\<newline>''
     @ ''13 drwx 4096 tracelogs''"

definition answering :: "string \<Rightarrow> string \<Rightarrow> string \<Rightarrow> exn + string" where
  \<comment> \<open>A reply table: one command is answered with a text, any other raises.\<close>
  "answering cmd text asked =
     (if asked = cmd then Inr text else Inl (OtherException ''unexpected command''))"

definition end_to_end_device :: "string \<Rightarrow> exn + string" where
  \<comment> \<open>The device of the specification's end-to-end scenario: one image, the matching
      boot line, and a verification that succeeds.\<close>
  "end_to_end_device asked =
     (if asked = ''dir bootflash:'' then Inr ''11 -rw- 620 router-boot-03.bin''
      else if asked = ''show run | include boot system''
        then Inr ''boot system flash bootflash:router-boot-03.bin''
      else if asked = ''verify bootflash:router-boot-03.bin''
        then Inr ''Signature Successfully Validated''
      else Inl (OtherException ''unexpected command''))"


section \<open>A transport that records what it receives\<close>

text \<open>
  The call record of a test double: \<open>recording nm\<close> behaves as \<open>nm\<close> does and keeps,
  beside the world of \<open>nm\<close>, the list of the calls it received, each added when
  the operation of \<open>nm\<close> has been carried out. \<open>received\<close> reads that list.
\<close>

definition recording :: "'w netmiko \<Rightarrow> ('w \<times> call list) netmiko" where
  "recording nm =
     \<lparr>nm_ConnectHandler = (\<lambda>d (w, tr).
        case nm_ConnectHandler nm d w of (r, w') \<Rightarrow> (r, (w', tr @ [ConnectHandler_call r]))),
      nm_send_command = (\<lambda>c cmd t (w, tr).
        case nm_send_command nm c cmd t w of (r, w') \<Rightarrow> (r, (w', tr @ [send_command_call c cmd t]))),
      nm_disconnect = (\<lambda>c (w, tr).
        case nm_disconnect nm c w of (r, w') \<Rightarrow> (r, (w', tr @ [disconnect_call c])))\<rparr>"

definition received :: "('w \<times> call list) state \<Rightarrow> call list" where
  "received s = snd (world s)"

definition router_recorded :: "(nat \<times> call list) state" where
  "router_recorded = init ''howdy'' ''127.0.0.1'' ''MyUser'' ''MyPass'' (0, [])"


section \<open>Facts about the text operations\<close>

lemma str_contains_iff: "str_contains sub s \<longleftrightarrow> (\<exists>ps ss. s = ps @ sub @ ss)"
proof (induction s)
  case Nil
  then show ?case by auto
next
  case (Cons c cs)
  have "(\<exists>ps ss. c # cs = ps @ sub @ ss) \<longleftrightarrow> prefix sub (c # cs) \<or> (\<exists>ps ss. cs = ps @ sub @ ss)"
    using sublist_Cons_right [of sub c cs] by (simp add: sublist_def)
  with Cons show ?case by simp
qed

lemma split_from_Nil_iff: "split_from tok s = [] \<longleftrightarrow> tok = [] \<and> (\<forall>c \<in> set s. isspace c)"
  by (induction s arbitrary: tok) auto

lemma isspace_bin: "\<not> isspace (CHR ''.'')"
  by (simp add: isspace_def)

lemma contains_bin_nonspace: "str_contains ''.bin'' line \<Longrightarrow> \<exists>c \<in> set line. \<not> isspace c"
  using isspace_bin by (auto simp: str_contains_iff)

lemma collect_ios_files_total: "\<exists>fs. collect_ios_files acc ls = Inr fs"
proof (induction ls arbitrary: acc)
  case Nil
  then show ?case by simp
next
  case (Cons l ls)
  show ?case
  proof (cases "str_contains ''.bin'' l")
    case True
    then have "str_split l \<noteq> []"
      using contains_bin_nonspace [of l] by (simp add: str_split_def split_from_Nil_iff)
    then obtain t ts where "str_split l = t # ts" by (cases "str_split l") auto
    with True Cons show ?thesis by simp
  next
    case False
    with Cons show ?thesis by simp
  qed
qed

lemma collect_ios_files_eq:
  "collect_ios_files acc ls = Inr (acc @ map (\<lambda>l. last (str_split l)) (filter (str_contains ''.bin'') ls))"
proof (induction ls arbitrary: acc)
  case Nil
  then show ?case by simp
next
  case (Cons l ls)
  show ?case
  proof (cases "str_contains ''.bin'' l")
    case True
    then have "str_split l \<noteq> []"
      using contains_bin_nonspace [of l] by (simp add: str_split_def split_from_Nil_iff)
    then obtain t ts where "str_split l = t # ts" by (cases "str_split l") auto
    with True Cons show ?thesis by simp
  next
    case False
    with Cons show ?thesis by simp
  qed
qed

lemma split_from_last:
  assumes "\<forall>c \<in> set tok. \<not> isspace c" and "split_from tok s \<noteq> []"
  shows "\<exists>pre suf. tok @ s = pre @ last (split_from tok s) @ suf
           \<and> (\<forall>c \<in> set suf. isspace c) \<and> (pre = [] \<or> isspace (last pre))
           \<and> last (split_from tok s) \<noteq> [] \<and> (\<forall>c \<in> set (last (split_from tok s)). \<not> isspace c)"
  using assms
proof (induction s arbitrary: tok)
  case Nil
  then have "tok \<noteq> []" and "last (split_from tok []) = tok" by (auto split: if_splits)
  with Nil.prems(1) show ?case
    by (intro exI [of _ "[]"]) simp
next
  case (Cons c cs)
  show ?case
  proof (cases "isspace c")
    case sp: True
    show ?thesis
    proof (cases "split_from [] cs = []")
      case True
      then have ws: "\<forall>d \<in> set cs. isspace d" by (simp add: split_from_Nil_iff)
      from True sp Cons.prems have tok: "tok \<noteq> []" and l: "last (split_from tok (c # cs)) = tok"
        by (auto split: if_splits)
      have "tok @ c # cs = [] @ tok @ (c # cs)" by simp
      with ws sp tok l Cons.prems(1) show ?thesis
        by (metis set_ConsD)
    next
      case False
      then have l: "last (split_from tok (c # cs)) = last (split_from [] cs)"
        using sp by simp
      from Cons.IH [of "[]"] False obtain pre suf where
        h: "cs = pre @ last (split_from [] cs) @ suf" "\<forall>c \<in> set suf. isspace c"
           "pre = [] \<or> isspace (last pre)" "last (split_from [] cs) \<noteq> []"
           "\<forall>c \<in> set (last (split_from [] cs)). \<not> isspace c"
        by auto
      let ?pre = "tok @ c # pre"
      have "tok @ c # cs = ?pre @ last (split_from [] cs) @ suf" using h(1) by simp
      moreover have "isspace (last ?pre)" using h(3) sp by auto
      ultimately show ?thesis using h l by (metis append_is_Nil_conv list.distinct(1))
    qed
  next
    case False
    then have l: "split_from tok (c # cs) = split_from (tok @ [c]) cs" by simp
    have "\<forall>d \<in> set (tok @ [c]). \<not> isspace d" using False Cons.prems(1) by auto
    from Cons.IH [OF this] Cons.prems(2) l show ?thesis by simp
  qed
qed

lemma sort_reverse_set: "set (sort_reverse xs) = set xs"
  by (simp add: sort_reverse_def)

lemma sort_reverse_Nil_iff: "sort_reverse xs = [] \<longleftrightarrow> xs = []"
  using sort_reverse_set [of xs] by (metis set_empty)

lemma sort_reverse_length: "length (sort_reverse xs) = length xs"
  by (simp add: sort_reverse_def)

lemma sort_reverse_descending: "sorted (rev (sort_reverse xs))"
  by (simp add: sort_reverse_def)

lemma sort_reverse_hd:
  assumes "sort_reverse xs = f # fs"
  shows "f \<in> set xs \<and> (\<forall>g \<in> set xs. g \<le> f)"
proof -
  have eq: "set xs = insert f (set fs)"
    using sort_reverse_set [of xs] assms by simp
  have "sorted (rev (f # fs))" using sort_reverse_descending [of xs] assms by simp
  then have "\<forall>g \<in> set fs. g \<le> f"
    by (auto simp: sorted_append)
  with eq show ?thesis by auto
qed

lemma collect_spec: "collect_ios_files [] (str_splitlines listing) = Inr (spec_candidates listing)"
  by (simp add: collect_ios_files_eq spec_candidates_def)


lemma find_latest_raise:
  assumes "connection self = Some c"
      and "nm_send_command nm c ''dir bootflash:'' None (world self) = (Inl e, w)"
  shows "find_latest_iosxe_file nm self =
           (Inr False,
            logging_error (''Error finding latest IOS-XE file: '' @ str_exn e)
              (self\<lparr>world := w, calls := calls self @ [send_command_call c ''dir bootflash:'' None]\<rparr>))"
  using assms
  by (simp add: find_latest_iosxe_file_def find_latest_iosxe_file_try_def
        connection_send_command_def)

lemma find_latest_none:
  assumes "connection self = Some c"
      and "nm_send_command nm c ''dir bootflash:'' None (world self) = (Inr listing, w)"
      and "spec_candidates listing = []"
  shows "find_latest_iosxe_file nm self =
           (Inr False,
            logging_error ''No IOS-XE .bin files found in bootflash.''
              (self\<lparr>world := w, calls := calls self @ [send_command_call c ''dir bootflash:'' None]\<rparr>))"
proof -
  have "find_latest_iosxe_file_try nm self = (Inr False,
            logging_error ''No IOS-XE .bin files found in bootflash.''
              (self\<lparr>world := w, calls := calls self @ [send_command_call c ''dir bootflash:'' None]\<rparr>))"
    unfolding find_latest_iosxe_file_try_def connection_send_command_def
    using assms by (simp add: collect_spec)
  then show ?thesis by (simp add: find_latest_iosxe_file_def)
qed

lemma find_latest_some:
  assumes "connection self = Some c"
      and "nm_send_command nm c ''dir bootflash:'' None (world self) = (Inr listing, w)"
      and "sort_reverse (spec_candidates listing) = f # fs"
  shows "find_latest_iosxe_file nm self =
           (Inr True,
            logging_info (''Latest IOS-XE image found: '' @ f)
              (self\<lparr>world := w, calls := calls self @ [send_command_call c ''dir bootflash:'' None],
                     iosbootfile := Some f\<rparr>))"
proof -
  have ne: "spec_candidates listing \<noteq> []"
  proof
    assume "spec_candidates listing = []"
    then have "sort_reverse (spec_candidates listing) = []" by (simp add: sort_reverse_Nil_iff)
    with assms(3) show False by simp
  qed
  have "find_latest_iosxe_file_try nm self = (Inr True,
            logging_info (''Latest IOS-XE image found: '' @ f)
              (self\<lparr>world := w, calls := calls self @ [send_command_call c ''dir bootflash:'' None],
                     iosbootfile := Some f\<rparr>))"
    unfolding find_latest_iosxe_file_try_def connection_send_command_def
    using assms ne by (simp add: collect_spec)
  then show ?thesis by (simp add: find_latest_iosxe_file_def)
qed

lemma str_split_final_token:
  assumes "str_split line \<noteq> []"
  shows "spec_final_token line (last (str_split line))"
  using split_from_last [of "[]" line] assms
  unfolding spec_final_token_def str_split_def by auto

lemma contains_bin_split: "str_contains ''.bin'' line \<Longrightarrow> str_split line \<noteq> []"
  using contains_bin_nonspace [of line] by (simp add: str_split_def split_from_Nil_iff)

text \<open>
  \<open>spec_final_token\<close> determines the token: a line has at most one final
  whitespace-delimited token, so \<open>line.split()[-1]\<close> is that token and no other.
\<close>

lemma takeWhile_stop: "\<forall>c \<in> set xs. P c \<Longrightarrow> \<not> P y \<Longrightarrow> takeWhile P (xs @ y # ys) = xs"
  by (induction xs) auto

lemma takeWhile_rev_tail:
  assumes "\<forall>c \<in> set t. P c" and "p = [] \<or> \<not> P (last p)"
  shows "takeWhile P (rev t @ rev p) = rev t"
proof (cases p rule: rev_cases)
  case Nil
  then show ?thesis using assms(1) by (simp add: takeWhile_eq_all_conv)
next
  case (snoc ys y)
  then have "\<not> P y" using assms(2) by simp
  moreover have "\<forall>c \<in> set (rev t). P c" using assms(1) by simp
  ultimately have "takeWhile P (rev t @ y # rev ys) = rev t" by (rule takeWhile_stop [rotated])
  then show ?thesis using snoc by simp
qed

lemma spec_final_token_unique:
  assumes "spec_final_token line t" and "spec_final_token line u"
  shows "t = u"
proof -
  from assms(1) obtain p1 s1 where
    a: "line = p1 @ t @ s1" "\<forall>c \<in> set s1. isspace c" "p1 = [] \<or> isspace (last p1)"
       "t \<noteq> []" "\<forall>c \<in> set t. \<not> isspace c"
    unfolding spec_final_token_def by blast
  from assms(2) obtain p2 s2 where
    b: "line = p2 @ u @ s2" "\<forall>c \<in> set s2. isspace c" "p2 = [] \<or> isspace (last p2)"
       "u \<noteq> []" "\<forall>c \<in> set u. \<not> isspace c"
    unfolding spec_final_token_def by blast
  have r1: "rev line = rev s1 @ rev t @ rev p1" using a(1) by simp
  have r2: "rev line = rev s2 @ rev u @ rev p2" using b(1) by simp
  have d1: "dropWhile isspace (rev line) = rev t @ rev p1"
    unfolding r1 using a(2,4,5)
    by (metis dropWhile_append2 dropWhile_eq_self_iff append_is_Nil_conv hd_append2 hd_rev
          last_in_set rev_is_Nil_conv set_rev)
  have d2: "dropWhile isspace (rev line) = rev u @ rev p2"
    unfolding r2 using b(2,4,5)
    by (metis dropWhile_append2 dropWhile_eq_self_iff append_is_Nil_conv hd_append2 hd_rev
          last_in_set rev_is_Nil_conv set_rev)
  have t1: "takeWhile (\<lambda>c. \<not> isspace c) (rev t @ rev p1) = rev t"
    using a(3,5) by (intro takeWhile_rev_tail) auto
  have t2: "takeWhile (\<lambda>c. \<not> isspace c) (rev u @ rev p2) = rev u"
    using b(3,5) by (intro takeWhile_rev_tail) auto
  from d1 d2 t1 t2 have "rev t = rev u" by simp
  then show ?thesis by simp
qed

lemma spec_candidates_Nil_iff:
  "spec_candidates listing = [] \<longleftrightarrow> (\<forall>line \<in> set (str_splitlines listing). \<not> str_contains ''.bin'' line)"
  by (auto simp: spec_candidates_def filter_empty_conv)

lemma example_order: "''isr4300-17.03.04.bin'' < ''isr4300-17.06.01.bin''"
  by simp

lemma find_try_returns:
  assumes "connection self = Some c"
      and "nm_send_command nm c ''dir bootflash:'' None (world self) = (Inr listing, w)"
  shows "\<exists>b. fst (find_latest_iosxe_file_try nm self) = Inr b"
proof (cases "sort_reverse (spec_candidates listing)")
  case Nil
  then have "spec_candidates listing = []" by (simp add: sort_reverse_Nil_iff)
  then have "fst (find_latest_iosxe_file_try nm self) = Inr False"
    unfolding find_latest_iosxe_file_try_def connection_send_command_def
    using assms by (simp add: collect_spec)
  then show ?thesis by blast
next
  case (Cons f fs)
  then have "spec_candidates listing \<noteq> []" using sort_reverse_Nil_iff [of "spec_candidates listing"] by simp
  then have "fst (find_latest_iosxe_file_try nm self) = Inr True"
    unfolding find_latest_iosxe_file_try_def connection_send_command_def
    using assms Cons by (simp add: collect_spec)
  then show ?thesis by blast
qed

section \<open>The Image Selector\<close>

text \<open>
  Claim C10. Taking the last token never fails: a line that contains \<open>.bin\<close> has a
  character that is not whitespace, so \<open>line.split()\<close> is not empty; the loop over
  the lines of any listing ends with the list of candidates, never with IndexError; and
  the body of the \<open>try\<close>, given a listing by the device, ends with a truth value.
\<close>

theorem last_token_extraction_total:
  "(str_contains ''.bin'' line \<longrightarrow> (\<exists>c \<in> set line. \<not> isspace c) \<and> str_split line \<noteq> [])
   \<and> (\<exists>fs. collect_ios_files acc ls = Inr fs)
   \<and> (connection self = Some c
        \<and> nm_send_command nm c ''dir bootflash:'' None (world self) = (Inr listing, w)
       \<longrightarrow> (\<exists>b. fst (find_latest_iosxe_file_try nm self) = Inr b))"
  using contains_bin_nonspace [of line] contains_bin_split [of line]
    collect_ios_files_total [of acc ls] find_try_returns [of self c nm listing w]
  by blast

theorem last_token_extraction_total_witness:
  "str_contains ''.bin'' ''-rw- 7 a.bin'' \<and> str_split ''-rw- 7 a.bin'' \<noteq> []
   \<and> (\<exists>fs. collect_ios_files [] [''-rw- 7 a.bin''] = Inr fs)
   \<and> (\<exists>b. fst (find_latest_iosxe_file_try
                   (scripted (Inr 1) (answering ''dir bootflash:'' ''-rw- 7 a.bin'') (Inr ()))
                   (router\<lparr>connection := Some 1\<rparr>)) = Inr b)"
proof -
  let ?nm = "scripted (Inr 1) (answering ''dir bootflash:'' ''-rw- 7 a.bin'') (Inr ())"
  let ?self = "router\<lparr>connection := Some 1\<rparr>"
  have h1: "connection ?self = Some 1" by simp
  have h2: "nm_send_command ?nm 1 ''dir bootflash:'' None (world ?self)
              = (Inr ''-rw- 7 a.bin'', Suc 0)"
    by (simp add: scripted_def answering_def router_def init_def)
  have h3: "str_contains ''.bin'' ''-rw- 7 a.bin''" by simp
  from last_token_extraction_total
         [of "''-rw- 7 a.bin''" "[]" "[''-rw- 7 a.bin'']" ?self 1 ?nm "''-rw- 7 a.bin''" "Suc 0"]
    h1 h2 h3
  show ?thesis by blast
qed

text \<open>
  Claim C9 says that every candidate contains \<open>.bin\<close> in the filename token itself.
  The code tests the line, not the token: on the line below the marker sits in the fourth
  token and the candidate is the fifth.
\<close>

theorem candidate_without_marker_counterexample:
  "collect_ios_files [] (str_splitlines ''12 -rw- 4096 core.bin old'') = Inr [''old'']
   \<and> \<not> str_contains ''.bin'' ''old''"
  by (simp add: str_splitlines_def str_split_def is_linebreak_def isspace_def)

text \<open>
  Claim C9, amended. Every candidate is the final whitespace-delimited token of a line of
  the listing that contains \<open>.bin\<close> somewhere; the token itself need not contain it.
\<close>

theorem candidate_from_marked_line:
  assumes "collect_ios_files [] (str_splitlines listing) = Inr ios_files"
      and "f \<in> set ios_files"
  shows "\<exists>line \<in> set (str_splitlines listing).
           str_contains ''.bin'' line \<and> f = last (str_split line) \<and> spec_final_token line f"
proof -
  from assms have "f \<in> set (spec_candidates listing)" by (simp add: collect_spec)
  then obtain line where l: "line \<in> set (str_splitlines listing)" "str_contains ''.bin'' line"
      "f = last (str_split line)"
    by (auto simp: spec_candidates_def)
  then have "spec_final_token line f"
    using str_split_final_token [of line] contains_bin_split [of line] by simp
  with l show ?thesis by blast
qed

theorem candidate_from_marked_line_witness:
  "\<exists>line \<in> set (str_splitlines ''12 -rw- 4096 core.bin old'').
      str_contains ''.bin'' line \<and> ''old'' = last (str_split line) \<and> spec_final_token line ''old''"
proof -
  have h: "collect_ios_files [] (str_splitlines ''12 -rw- 4096 core.bin old'') = Inr [''old'']"
    by (simp add: str_splitlines_def str_split_def is_linebreak_def isspace_def)
  have m: "''old'' \<in> set [''old'']" by simp
  show ?thesis by (rule candidate_from_marked_line [OF h m])
qed

lemma two_candidates_nonempty: "set xs = {a, b} \<Longrightarrow> xs \<noteq> []"
  by auto

lemma greatest_of_two:
  fixes a b :: "'a :: linorder"
  assumes "set xs = {a, b}" and "a < b" and "f \<in> set xs" and "\<forall>g \<in> set xs. g \<le> f"
  shows "f = b"
  using assms by auto

text \<open>
  Claim C3. Whenever the listing command returns a text, the candidates the loop collects
  are, in order, the final whitespace-delimited tokens of the lines that contain
  \<open>.bin\<close>; \<open>sort(reverse=True)\<close> puts them in descending order of the full filename
  strings; the method stores the first of them, which is a candidate that no candidate
  exceeds, and returns True; it returns False and stores nothing exactly when no line
  contains the marker. With the two candidates \<open>isr4300-17.03.04.bin\<close> and
  \<open>isr4300-17.06.01.bin\<close> it stores \<open>isr4300-17.06.01.bin\<close>.
\<close>

theorem image_selector_selects_greatest:
  assumes "connection self = Some c"
      and "nm_send_command nm c ''dir bootflash:'' None (world self) = (Inr listing, w)"
  shows "collect_ios_files [] (str_splitlines listing) = Inr (spec_candidates listing)
       \<and> (\<forall>line \<in> set (str_splitlines listing).
             str_contains ''.bin'' line \<longrightarrow> spec_final_token line (last (str_split line)))
       \<and> sorted (rev (sort_reverse (spec_candidates listing)))
       \<and> set (sort_reverse (spec_candidates listing)) = set (spec_candidates listing)
       \<and> length (sort_reverse (spec_candidates listing)) = length (spec_candidates listing)
       \<and> ((\<forall>line \<in> set (str_splitlines listing). \<not> str_contains ''.bin'' line) \<longrightarrow>
             fst (find_latest_iosxe_file nm self) = Inr False
             \<and> iosbootfile (snd (find_latest_iosxe_file nm self)) = iosbootfile self)
       \<and> ((\<exists>line \<in> set (str_splitlines listing). str_contains ''.bin'' line) \<longrightarrow>
             fst (find_latest_iosxe_file nm self) = Inr True
             \<and> (\<exists>f. iosbootfile (snd (find_latest_iosxe_file nm self)) = Some f
                    \<and> f = hd (sort_reverse (spec_candidates listing))
                    \<and> f \<in> set (spec_candidates listing)
                    \<and> (\<forall>g \<in> set (spec_candidates listing). g \<le> f)))
       \<and> (set (spec_candidates listing) = {''isr4300-17.03.04.bin'', ''isr4300-17.06.01.bin''} \<longrightarrow>
             iosbootfile (snd (find_latest_iosxe_file nm self)) = Some ''isr4300-17.06.01.bin'')"
proof -
  have tok: "\<forall>line \<in> set (str_splitlines listing).
             str_contains ''.bin'' line \<longrightarrow> spec_final_token line (last (str_split line))"
    using str_split_final_token contains_bin_split by blast
  have none: "fst (find_latest_iosxe_file nm self) = Inr False
             \<and> iosbootfile (snd (find_latest_iosxe_file nm self)) = iosbootfile self"
    if "\<forall>line \<in> set (str_splitlines listing). \<not> str_contains ''.bin'' line"
  proof -
    from that have "spec_candidates listing = []" by (simp add: spec_candidates_Nil_iff)
    from find_latest_none [OF assms this] show ?thesis by (simp add: logging_error_def)
  qed
  have some: "fst (find_latest_iosxe_file nm self) = Inr True
             \<and> (\<exists>f. iosbootfile (snd (find_latest_iosxe_file nm self)) = Some f
                    \<and> f = hd (sort_reverse (spec_candidates listing))
                    \<and> f \<in> set (spec_candidates listing)
                    \<and> (\<forall>g \<in> set (spec_candidates listing). g \<le> f))"
    if ne: "spec_candidates listing \<noteq> []"
  proof -
    from ne have "sort_reverse (spec_candidates listing) \<noteq> []" by (simp add: sort_reverse_Nil_iff)
    then obtain f fs where s: "sort_reverse (spec_candidates listing) = f # fs"
      by (cases "sort_reverse (spec_candidates listing)") auto
    from find_latest_some [OF assms s] sort_reverse_hd [OF s] s show ?thesis
      by (simp add: logging_info_def)
  qed
  have ex: "iosbootfile (snd (find_latest_iosxe_file nm self)) = Some ''isr4300-17.06.01.bin''"
    if eq: "set (spec_candidates listing) = {''isr4300-17.03.04.bin'', ''isr4300-17.06.01.bin''}"
  proof -
    have "spec_candidates listing \<noteq> []" by (rule two_candidates_nonempty [OF eq])
    from some [OF this] obtain f where
      f: "iosbootfile (snd (find_latest_iosxe_file nm self)) = Some f"
         "f \<in> set (spec_candidates listing)" "\<forall>g \<in> set (spec_candidates listing). g \<le> f"
      by blast
    have "f = ''isr4300-17.06.01.bin''"
      by (rule greatest_of_two [OF eq example_order f(2) f(3)])
    with f(1) show ?thesis by (simp only:)
  qed
  show ?thesis
    using tok none some ex
    by (simp add: collect_spec sort_reverse_descending sort_reverse_set sort_reverse_length
          spec_candidates_Nil_iff)
qed

lemma example_listing_lines:
  "str_splitlines example_listing =
     [''Directory of bootflash:/'', ''12 -rw- 620 isr4300-17.06.01.bin'',
      ''11 -rw- 540 isr4300-17.03.04.bin'', ''13 drwx 4096 tracelogs'']"
  by (simp add: example_listing_def str_splitlines_def is_linebreak_def)

lemma example_listing_candidates:
  "spec_candidates example_listing = [''isr4300-17.06.01.bin'', ''isr4300-17.03.04.bin'']"
  by (simp add: spec_candidates_def example_listing_lines str_split_def isspace_def)

theorem image_selector_selects_greatest_witness:
  "fst (find_latest_iosxe_file (scripted (Inr 1) (answering ''dir bootflash:'' example_listing) (Inr ()))
          (router\<lparr>connection := Some 1\<rparr>)) = Inr True
   \<and> iosbootfile (snd (find_latest_iosxe_file
          (scripted (Inr 1) (answering ''dir bootflash:'' example_listing) (Inr ()))
          (router\<lparr>connection := Some 1\<rparr>))) = Some ''isr4300-17.06.01.bin''"
proof -
  let ?nm = "scripted (Inr 1) (answering ''dir bootflash:'' example_listing) (Inr ())"
  let ?self = "router\<lparr>connection := Some 1\<rparr>"
  have h1: "connection ?self = Some 1" by simp
  have h2: "nm_send_command ?nm 1 ''dir bootflash:'' None (world ?self) = (Inr example_listing, Suc 0)"
    by (simp add: scripted_def answering_def router_def init_def)
  have ex: "\<exists>line \<in> set (str_splitlines example_listing). str_contains ''.bin'' line"
    by (simp add: example_listing_lines)
  have two: "set (spec_candidates example_listing) = {''isr4300-17.03.04.bin'', ''isr4300-17.06.01.bin''}"
    by (simp only: example_listing_candidates list.set insert_commute)
  from image_selector_selects_greatest [OF h1 h2] ex two show ?thesis by blast
qed

section \<open>Facts about the two checks\<close>

lemma truthy_iff: "truthy v \<longleftrightarrow> (\<exists>x. v = Some x \<and> x \<noteq> [])"
  by (cases v) (auto simp: truthy_def)

lemma validate_absent:
  assumes "\<not> truthy (iosbootfile self)"
  shows "validate_boot_statement nm self =
           (Inr False,
            logging_error ''No latest IOS-XE image found to validate boot statement.'' self)"
  using assms by (simp add: validate_boot_statement_def validate_boot_statement_try_def)

lemma validate_raise:
  assumes "truthy (iosbootfile self)" and "connection self = Some c"
      and "nm_send_command nm c ''show run | include boot system'' None (world self) = (Inl e, w)"
  shows "validate_boot_statement nm self =
           (Inr False,
            logging_error (''Error validating boot statement: '' @ str_exn e)
              (self\<lparr>world := w,
                     calls := calls self
                       @ [send_command_call c ''show run | include boot system'' None]\<rparr>))"
  using assms
  by (simp add: validate_boot_statement_def validate_boot_statement_try_def
        connection_send_command_def)

lemma validate_text:
  assumes "iosbootfile self = Some x" and "x \<noteq> []" and "connection self = Some c"
      and "nm_send_command nm c ''show run | include boot system'' None (world self)
             = (Inr output, w)"
  shows "validate_boot_statement nm self =
           (Inr (str_contains (''boot system flash bootflash:'' @ x) output),
            (if str_contains (''boot system flash bootflash:'' @ x) output
             then logging_info (''Boot statement matches the latest IOS-XE image: '' @ x)
             else logging_error (''Boot statement does not match the latest image: '' @ x))
              (self\<lparr>world := w,
                     calls := calls self
                       @ [send_command_call c ''show run | include boot system'' None]\<rparr>))"
proof -
  have t: "truthy (iosbootfile self)" using assms(1,2) by (simp add: truthy_def)
  show ?thesis
    unfolding validate_boot_statement_def validate_boot_statement_try_def
      connection_send_command_def
    using assms t by (simp add: fmt_def Let_def)
qed

lemma verify_absent:
  assumes "\<not> truthy (iosbootfile self)"
  shows "verify_ios_image_signature nm self =
           (Inr False, logging_error ''No latest IOS-XE image found to verify.'' self)"
  using assms by (simp add: verify_ios_image_signature_def verify_ios_image_signature_try_def)

lemma verify_raise:
  assumes "iosbootfile self = Some x" and "x \<noteq> []" and "connection self = Some c"
      and "nm_send_command nm c (''verify bootflash:'' @ x) (Some 1000) (world self) = (Inl e, w)"
  shows "verify_ios_image_signature nm self =
           (Inr False,
            logging_error (''Error during image verification: '' @ str_exn e)
              (self\<lparr>world := w,
                     calls := calls self
                       @ [send_command_call c (''verify bootflash:'' @ x) (Some 1000)]\<rparr>))"
proof -
  have t: "truthy (iosbootfile self)" using assms(1,2) by (simp add: truthy_def)
  show ?thesis
    unfolding verify_ios_image_signature_def verify_ios_image_signature_try_def
      connection_send_command_def
    using assms t by (simp add: fmt_def)
qed

lemma verify_text:
  assumes "iosbootfile self = Some x" and "x \<noteq> []" and "connection self = Some c"
      and "nm_send_command nm c (''verify bootflash:'' @ x) (Some 1000) (world self)
             = (Inr output, w)"
  shows "verify_ios_image_signature nm self =
           (Inr (str_contains ''signature successfully'' (str_lower output)),
            (if str_contains ''signature successfully'' (str_lower output)
             then logging_info (''Image '' @ x @ '' verification successful.'')
             else (\<lambda>s. print (''Error: Signature verification failed for '' @ x @ ''.'')
                          (logging_error (''Error: Signature verification failed for '' @ x @ ''.'') s)))
              (self\<lparr>world := w,
                     calls := calls self
                       @ [send_command_call c (''verify bootflash:'' @ x) (Some 1000)]\<rparr>))"
proof -
  have t: "truthy (iosbootfile self)" using assms(1,2) by (simp add: truthy_def)
  show ?thesis
    unfolding verify_ios_image_signature_def verify_ios_image_signature_try_def
      connection_send_command_def
    using assms t by (simp add: fmt_def Let_def)
qed

section \<open>Facts about lines and letter case\<close>

text \<open>Every line that \<open>splitlines\<close> gives is a contiguous run of the text.\<close>

lemma splitlines_from_sub:
  "line \<in> set (splitlines_from cur s) \<Longrightarrow> \<exists>ps ss. cur @ s = ps @ line @ ss"
proof (induction cur s rule: splitlines_from.induct)
  case (1 cur)
  then have "line = cur" by (auto split: if_splits)
  then have "cur @ [] = [] @ line @ []" by simp
  then show ?case by blast
next
  case (2 cur c)
  then consider "line = cur" | "line = cur @ [c]" by (auto split: if_splits)
  then show ?case
  proof cases
    case 1
    then have "cur @ [c] = [] @ line @ [c]" by simp
    then show ?thesis by blast
  next
    case 2
    then have "cur @ [c] = [] @ line @ []" by simp
    then show ?thesis by blast
  qed
next
  case (3 cur c d cs)
  show ?case
  proof (cases "c = CHR 0x0D \<and> d = CHR 0x0A")
    case True
    with 3 consider "line = cur" | "line \<in> set (splitlines_from [] cs)" by auto
    then show ?thesis
    proof cases
      case 1
      then have "cur @ c # d # cs = [] @ line @ (c # d # cs)" by simp
      then show ?thesis by blast
    next
      case 2
      with 3(1) True obtain ps ss where "[] @ cs = ps @ line @ ss" by blast
      then have "cur @ c # d # cs = (cur @ c # d # ps) @ line @ ss" by simp
      then show ?thesis by blast
    qed
  next
    case False
    show ?thesis
    proof (cases "is_linebreak c")
      case lb: True
      with 3 False consider "line = cur" | "line \<in> set (splitlines_from [] (d # cs))" by auto
      then show ?thesis
      proof cases
        case 1
        then have "cur @ c # d # cs = [] @ line @ (c # d # cs)" by simp
        then show ?thesis by blast
      next
        case 2
        with 3(2) False lb obtain ps ss where "[] @ d # cs = ps @ line @ ss" by blast
        then have "cur @ c # d # cs = (cur @ c # ps) @ line @ ss" by simp
        then show ?thesis by blast
      qed
    next
      case nlb: False
      with 3 False have "line \<in> set (splitlines_from (cur @ [c]) (d # cs))" by auto
      with 3(3) False nlb obtain ps ss where "(cur @ [c]) @ d # cs = ps @ line @ ss" by blast
      then have "cur @ c # d # cs = ps @ line @ ss" by simp
      then show ?thesis by blast
    qed
  qed
qed

lemma line_is_substring:
  "line \<in> set (str_splitlines text) \<Longrightarrow> \<exists>ps ss. text = ps @ line @ ss"
  using splitlines_from_sub [of line "[]" "text"] by (simp add: str_splitlines_def)

text \<open>
  Lowering a text and searching a phrase of small letters and spaces in it is searching
  the phrase in any letter casing.
\<close>

lemma of_char_char_of_small: "n < 256 \<Longrightarrow> (of_char (char_of (n :: nat)) :: nat) = n"
  by (simp add: of_char_of)

lemma lower_char_iff:
  assumes "(of_char p :: nat) = 32 \<or> (97 \<le> (of_char p :: nat) \<and> (of_char p :: nat) \<le> 122)"
  shows "lower_char c = p \<longleftrightarrow> spec_same_letter c p"
proof
  assume l: "lower_char c = p"
  show "spec_same_letter c p"
  proof (cases "65 \<le> (of_char c :: nat) \<and> (of_char c :: nat) \<le> 90")
    case True
    then have "p = char_of ((of_char c :: nat) + 32)" using l by (simp add: lower_char_def Let_def)
    then have "(of_char p :: nat) = of_char c + 32"
      using True of_char_char_of_small [of "of_char c + 32"] by simp
    with True show ?thesis by (simp add: spec_same_letter_def)
  next
    case False
    show ?thesis
    proof (cases "(192 \<le> (of_char c :: nat) \<and> (of_char c :: nat) \<le> 214)
                  \<or> (216 \<le> (of_char c :: nat) \<and> (of_char c :: nat) \<le> 222)")
      case True
      then have "p = char_of ((of_char c :: nat) + 32)" using l by (auto simp: lower_char_def Let_def)
      moreover have "(of_char c :: nat) + 32 < 256" using True by auto
      ultimately have "(of_char p :: nat) = of_char c + 32"
        using of_char_char_of_small [of "of_char c + 32"] by simp
      with True assms show ?thesis by auto
    next
      case False
      with \<open>\<not> (65 \<le> (of_char c :: nat) \<and> (of_char c :: nat) \<le> 90)\<close> l have "c = p"
        by (auto simp: lower_char_def Let_def)
      then show ?thesis by (simp add: spec_same_letter_def)
    qed
  qed
next
  assume "spec_same_letter c p"
  then consider "c = p" | "97 \<le> (of_char p :: nat)" "(of_char p :: nat) \<le> 122" "(of_char c :: nat) + 32 = of_char p"
    by (auto simp: spec_same_letter_def)
  then show "lower_char c = p"
  proof cases
    case 1
    with assms show ?thesis by (auto simp: lower_char_def Let_def)
  next
    case 2
    then have "65 \<le> (of_char c :: nat) \<and> (of_char c :: nat) \<le> 90" by auto
    then have "lower_char c = char_of ((of_char c :: nat) + 32)" by (simp add: lower_char_def Let_def)
    also have "\<dots> = char_of (of_char p :: nat)" using 2(3) by simp
    also have "\<dots> = p" by simp
    finally show ?thesis .
  qed
qed

lemma map_lower_iff:
  assumes "\<forall>p \<in> set phrase. (of_char p :: nat) = 32 \<or> (97 \<le> (of_char p :: nat) \<and> (of_char p :: nat) \<le> 122)"
  shows "map lower_char u = phrase \<longleftrightarrow> list_all2 spec_same_letter u phrase"
  using assms
proof (induction u arbitrary: phrase)
  case Nil
  then show ?case by auto
next
  case (Cons c u)
  show ?case
  proof (cases phrase)
    case Nil
    then show ?thesis by simp
  next
    case (Cons p ps)
    with Cons.prems Cons.IH [of ps] lower_char_iff [of p c] show ?thesis by simp
  qed
qed

lemma map_contains_iff:
  "(\<exists>ps ss. map f xs = ps @ ys @ ss) \<longleftrightarrow> (\<exists>ps u ss. xs = ps @ u @ ss \<and> map f u = ys)"
proof
  assume "\<exists>ps ss. map f xs = ps @ ys @ ss"
  then obtain ps ss where e: "map f xs = ps @ ys @ ss" by blast
  let ?a = "take (length ps) xs"
  let ?u = "take (length ys) (drop (length ps) xs)"
  let ?s = "drop (length ys) (drop (length ps) xs)"
  have "xs = ?a @ ?u @ ?s"
    by (simp only: append_take_drop_id)
  moreover have "map f ?u = take (length ys) (drop (length ps) (map f xs))"
    by (simp add: take_map drop_map)
  then have "map f ?u = ys" unfolding e by simp
  ultimately show "\<exists>ps u ss. xs = ps @ u @ ss \<and> map f u = ys" by blast
next
  assume "\<exists>ps u ss. xs = ps @ u @ ss \<and> map f u = ys"
  then obtain ps u ss where "xs = ps @ u @ ss" "map f u = ys" by blast
  then have "map f xs = map f ps @ ys @ map f ss" by simp
  then show "\<exists>ps ss. map f xs = ps @ ys @ ss" by blast
qed

lemma str_contains_lower:
  assumes "\<forall>p \<in> set phrase. (of_char p :: nat) = 32 \<or> (97 \<le> (of_char p :: nat) \<and> (of_char p :: nat) \<le> 122)"
  shows "str_contains phrase (str_lower text) \<longleftrightarrow> spec_contains_any_case phrase text"
  unfolding str_contains_iff str_lower_def spec_contains_any_case_def map_contains_iff
  using map_lower_iff [OF assms] by simp

lemma phrase_letters:
  "\<forall>p \<in> set ''signature successfully''.
      (of_char p :: nat) = 32 \<or> (97 \<le> (of_char p :: nat) \<and> (of_char p :: nat) \<le> 122)"
  by simp

section \<open>Facts about standard output\<close>

lemma stdout_logging [simp]:
  "stdout (logging_info m s) = stdout s" "stdout (logging_error m s) = stdout s"
  by (simp_all add: logging_info_def logging_error_def)

lemma stdout_connect: "stdout (snd (connect nm s)) = stdout s"
  by (simp add: connect_def Let_def split: prod.splits sum.splits exn.splits)

lemma stdout_disconnect: "stdout (snd (disconnect nm s)) = stdout s"
  by (simp add: disconnect_def split: prod.splits sum.splits option.splits)

lemma stdout_send: "stdout (snd (connection_send_command nm cmd t s)) = stdout s"
  by (simp add: connection_send_command_def split: prod.splits option.splits)

lemma stdout_find_try: "stdout (snd (find_latest_iosxe_file_try nm s)) = stdout s"
proof (cases "connection_send_command nm ''dir bootflash:'' None s")
  case (Pair r s1)
  then have s1: "stdout s1 = stdout s" using stdout_send [of nm "''dir bootflash:''" None s] by simp
  show ?thesis
    unfolding find_latest_iosxe_file_try_def Pair
    using s1 by (simp split: sum.splits list.splits)
qed

lemma stdout_find: "stdout (snd (find_latest_iosxe_file nm s)) = stdout s"
proof (cases "find_latest_iosxe_file_try nm s")
  case (Pair r s1)
  then have "stdout s1 = stdout s" using stdout_find_try [of nm s] by simp
  then show ?thesis unfolding find_latest_iosxe_file_def Pair by (simp split: sum.splits)
qed

lemma stdout_validate_try: "stdout (snd (validate_boot_statement_try nm s)) = stdout s"
proof (cases "connection_send_command nm ''show run | include boot system'' None s")
  case (Pair r s1)
  then have s1: "stdout s1 = stdout s"
    using stdout_send [of nm "''show run | include boot system''" None s] by simp
  show ?thesis
    unfolding validate_boot_statement_try_def Pair
    using s1 by (simp add: Let_def split: sum.splits)
qed

lemma stdout_validate: "stdout (snd (validate_boot_statement nm s)) = stdout s"
proof (cases "validate_boot_statement_try nm s")
  case (Pair r s1)
  then have "stdout s1 = stdout s" using stdout_validate_try [of nm s] by simp
  then show ?thesis unfolding validate_boot_statement_def Pair by (simp split: sum.splits)
qed

section \<open>The Boot-Statement Validator\<close>

text \<open>
  Claim C4 says that any configuration text other than one containing exactly the line
  \<open>boot system flash bootflash:X\<close> fails, a reference to a different filename included.
  The test is \<open>expected_boot in output\<close>: a text whose only boot line names
  \<open>X.bak\<close> has no line equal to the expected one, and passes.
\<close>

theorem boot_statement_longer_name_counterexample:
  "fst (validate_boot_statement
          (scripted (Inr 1)
             (answering ''show run | include boot system''
                ''boot system flash bootflash:isr4300-17.06.01.bin.bak'')
             (Inr ()))
          (router\<lparr>connection := Some 1, iosbootfile := Some ''isr4300-17.06.01.bin''\<rparr>))
     = Inr True
   \<and> ''boot system flash bootflash:isr4300-17.06.01.bin''
        \<notin> set (str_splitlines ''boot system flash bootflash:isr4300-17.06.01.bin.bak'')"
proof -
  let ?nm = "scripted (Inr 1)
             (answering ''show run | include boot system''
                ''boot system flash bootflash:isr4300-17.06.01.bin.bak'')
             (Inr ())"
  let ?self = "router\<lparr>connection := Some 1, iosbootfile := Some ''isr4300-17.06.01.bin''\<rparr>"
  have h1: "iosbootfile ?self = Some ''isr4300-17.06.01.bin''" by simp
  have h2: "''isr4300-17.06.01.bin'' \<noteq> []" by simp
  have h3: "connection ?self = Some 1" by simp
  have h4: "nm_send_command ?nm 1 ''show run | include boot system'' None (world ?self)
              = (Inr ''boot system flash bootflash:isr4300-17.06.01.bin.bak'', Suc 0)"
    by (simp add: scripted_def answering_def router_def init_def)
  have "fst (validate_boot_statement ?nm ?self) = Inr True"
    unfolding validate_text [OF h1 h2 h3 h4] by simp
  moreover have "''boot system flash bootflash:isr4300-17.06.01.bin''
        \<notin> set (str_splitlines ''boot system flash bootflash:isr4300-17.06.01.bin.bak'')"
    by (simp add: str_splitlines_def is_linebreak_def)
  ultimately show ?thesis by (rule conjI)
qed

text \<open>
  Claim C4, amended. Given a non-empty Selected Image \<open>X\<close> and the text that the
  configuration query returns, the validator returns pass exactly when the text contains
  \<open>boot system flash bootflash:X\<close> as a contiguous run of characters, anywhere in it,
  and fail otherwise. So it returns pass when a line of the text is exactly that line, and
  fail when the text lacks the run; whether the run is a whole line plays no part.
\<close>

theorem boot_statement_is_substring_test:
  assumes "iosbootfile self = Some x" and "x \<noteq> []" and "connection self = Some c"
      and "nm_send_command nm c ''show run | include boot system'' None (world self)
             = (Inr output, w)"
  shows "fst (validate_boot_statement nm self)
           = Inr (\<exists>ps ss. output = ps @ (''boot system flash bootflash:'' @ x) @ ss)
       \<and> ((''boot system flash bootflash:'' @ x) \<in> set (str_splitlines output)
             \<longrightarrow> fst (validate_boot_statement nm self) = Inr True)"
proof -
  have r: "fst (validate_boot_statement nm self)
             = Inr (\<exists>ps ss. output = ps @ (''boot system flash bootflash:'' @ x) @ ss)"
    unfolding validate_text [OF assms] str_contains_iff by simp
  have "fst (validate_boot_statement nm self) = Inr True"
    if "(''boot system flash bootflash:'' @ x) \<in> set (str_splitlines output)"
    using line_is_substring [OF that] r by simp
  with r show ?thesis by blast
qed

theorem boot_statement_is_substring_test_witness:
  "fst (validate_boot_statement
          (scripted (Inr 1)
             (answering ''show run | include boot system''
                ''boot system flash bootflash:isr4300-17.06.01.bin'')
             (Inr ()))
          (router\<lparr>connection := Some 1, iosbootfile := Some ''isr4300-17.06.01.bin''\<rparr>))
     = Inr True"
proof -
  let ?nm = "scripted (Inr 1)
             (answering ''show run | include boot system''
                ''boot system flash bootflash:isr4300-17.06.01.bin'')
             (Inr ())"
  let ?self = "router\<lparr>connection := Some 1, iosbootfile := Some ''isr4300-17.06.01.bin''\<rparr>"
  have h1: "iosbootfile ?self = Some ''isr4300-17.06.01.bin''" by simp
  have h2: "''isr4300-17.06.01.bin'' \<noteq> []" by simp
  have h3: "connection ?self = Some 1" by simp
  have h4: "nm_send_command ?nm 1 ''show run | include boot system'' None (world ?self)
              = (Inr ''boot system flash bootflash:isr4300-17.06.01.bin'', Suc 0)"
    by (simp add: scripted_def answering_def router_def init_def)
  have l: "(''boot system flash bootflash:'' @ ''isr4300-17.06.01.bin'')
             \<in> set (str_splitlines ''boot system flash bootflash:isr4300-17.06.01.bin'')"
    by (simp add: str_splitlines_def is_linebreak_def)
  from boot_statement_is_substring_test [OF h1 h2 h3 h4] l show ?thesis by blast
qed

text \<open>
  Claim C6. With the Selected Image absent (\<open>None\<close> or the empty string) both checks
  return False at once: the result is \<open>Inr False\<close>, not an exception, and the state
  differs from the one before by one line of the log only, so no call reached the
  transport and its world is untouched.
\<close>

theorem absent_image_fails_closed:
  assumes "iosbootfile self = None \<or> iosbootfile self = Some []"
  shows "validate_boot_statement nm self
           = (Inr False,
              logging_error ''No latest IOS-XE image found to validate boot statement.'' self)
       \<and> verify_ios_image_signature nm self
           = (Inr False, logging_error ''No latest IOS-XE image found to verify.'' self)
       \<and> calls (snd (validate_boot_statement nm self)) = calls self
       \<and> world (snd (validate_boot_statement nm self)) = world self
       \<and> calls (snd (verify_ios_image_signature nm self)) = calls self
       \<and> world (snd (verify_ios_image_signature nm self)) = world self"
proof -
  from assms have "\<not> truthy (iosbootfile self)" by (auto simp: truthy_def)
  from validate_absent [OF this] verify_absent [OF this] show ?thesis
    by (simp add: logging_error_def)
qed

theorem absent_image_fails_closed_witness:
  "fst (validate_boot_statement (scripted (Inr 1) (\<lambda>cmd. Inr ''ok'') (Inr ()))
          (router\<lparr>connection := Some 1\<rparr>)) = Inr False
   \<and> fst (verify_ios_image_signature (scripted (Inr 1) (\<lambda>cmd. Inr ''ok'') (Inr ()))
          (router\<lparr>connection := Some 1\<rparr>)) = Inr False
   \<and> calls (snd (validate_boot_statement (scripted (Inr 1) (\<lambda>cmd. Inr ''ok'') (Inr ()))
          (router\<lparr>connection := Some 1\<rparr>))) = []
   \<and> calls (snd (verify_ios_image_signature (scripted (Inr 1) (\<lambda>cmd. Inr ''ok'') (Inr ()))
          (router\<lparr>connection := Some 1\<rparr>))) = []"
proof -
  have h: "iosbootfile (router\<lparr>connection := Some 1\<rparr>) = None
           \<or> iosbootfile (router\<lparr>connection := Some 1\<rparr>) = Some []"
    by (simp add: router_def init_def)
  have c: "calls (router\<lparr>connection := Some 1\<rparr>) = []" by (simp add: router_def init_def)
  from absent_image_fails_closed [OF h, of "scripted (Inr 1) (\<lambda>cmd. Inr ''ok'') (Inr ())"] c
  show ?thesis by (simp add: logging_error_def)
qed

section \<open>The Signature Verifier\<close>

lemma signature_phrase_iff:
  "str_contains ''signature successfully'' (str_lower output)
     \<longleftrightarrow> spec_contains_any_case ''signature successfully'' output"
  by (rule str_contains_lower [OF phrase_letters])

text \<open>
  Claim C5. With a Selected Image present and a text returned by the verification command
  (sent with \<open>read_timeout=1000\<close>), the verifier returns pass exactly when the text
  contains \<open>signature successfully\<close> in some letter casing, and fail otherwise. On
  fail it prints one line to standard output, on pass it prints nothing, and no other
  method prints at all.
\<close>

theorem signature_verdict_and_message:
  assumes "iosbootfile self = Some x" and "x \<noteq> []" and "connection self = Some c"
      and "nm_send_command nm c (''verify bootflash:'' @ x) (Some 1000) (world self)
             = (Inr output, w)"
  shows "fst (verify_ios_image_signature nm self)
           = Inr (spec_contains_any_case ''signature successfully'' output)
       \<and> (spec_contains_any_case ''signature successfully'' output \<longrightarrow>
             stdout (snd (verify_ios_image_signature nm self)) = stdout self)
       \<and> (\<not> spec_contains_any_case ''signature successfully'' output \<longrightarrow>
             stdout (snd (verify_ios_image_signature nm self))
               = stdout self @ [''Error: Signature verification failed for '' @ x @ ''.''])
       \<and> stdout (snd (connect nm s)) = stdout s
       \<and> stdout (snd (find_latest_iosxe_file nm s)) = stdout s
       \<and> stdout (snd (validate_boot_statement nm s)) = stdout s
       \<and> stdout (snd (disconnect nm s)) = stdout s"
proof -
  note v = verify_text [OF assms]
  have a: "fst (verify_ios_image_signature nm self)
           = Inr (spec_contains_any_case ''signature successfully'' output)"
    unfolding v signature_phrase_iff by simp
  have b: "stdout (snd (verify_ios_image_signature nm self)) = stdout self"
    if "spec_contains_any_case ''signature successfully'' output"
    unfolding v signature_phrase_iff using that by simp
  have c: "stdout (snd (verify_ios_image_signature nm self))
               = stdout self @ [''Error: Signature verification failed for '' @ x @ ''.'']"
    if "\<not> spec_contains_any_case ''signature successfully'' output"
    unfolding v signature_phrase_iff using that by (simp add: print_def)
  from a b c show ?thesis
    using stdout_connect [of nm s] stdout_find [of nm s] stdout_validate [of nm s]
      stdout_disconnect [of nm s]
    by blast
qed

theorem signature_verdict_and_message_witness:
  "fst (verify_ios_image_signature
          (scripted (Inr 1)
             (answering ''verify bootflash:a.bin'' ''Signature Successfully Validated'')
             (Inr ()))
          (router\<lparr>connection := Some 1, iosbootfile := Some ''a.bin''\<rparr>)) = Inr True
   \<and> fst (verify_ios_image_signature
          (scripted (Inr 1)
             (answering ''verify bootflash:a.bin'' ''%Error verifying bootflash:a.bin'')
             (Inr ()))
          (router\<lparr>connection := Some 1, iosbootfile := Some ''a.bin''\<rparr>)) = Inr False
   \<and> stdout (snd (verify_ios_image_signature
          (scripted (Inr 1)
             (answering ''verify bootflash:a.bin'' ''%Error verifying bootflash:a.bin'')
             (Inr ()))
          (router\<lparr>connection := Some 1, iosbootfile := Some ''a.bin''\<rparr>)))
       = [''Error: Signature verification failed for a.bin.'']"
proof -
  let ?good = "scripted (Inr 1)
             (answering ''verify bootflash:a.bin'' ''Signature Successfully Validated'')
             (Inr ())"
  let ?bad = "scripted (Inr 1)
             (answering ''verify bootflash:a.bin'' ''%Error verifying bootflash:a.bin'')
             (Inr ())"
  let ?self = "router\<lparr>connection := Some 1, iosbootfile := Some ''a.bin''\<rparr>"
  have h1: "iosbootfile ?self = Some ''a.bin''" by simp
  have h2: "''a.bin'' \<noteq> []" by simp
  have h3: "connection ?self = Some 1" by simp
  have g: "nm_send_command ?good 1 (''verify bootflash:'' @ ''a.bin'') (Some 1000) (world ?self)
              = (Inr ''Signature Successfully Validated'', Suc 0)"
    by (simp add: scripted_def answering_def router_def init_def)
  have b: "nm_send_command ?bad 1 (''verify bootflash:'' @ ''a.bin'') (Some 1000) (world ?self)
              = (Inr ''%Error verifying bootflash:a.bin'', Suc 0)"
    by (simp add: scripted_def answering_def router_def init_def)
  have pg: "spec_contains_any_case ''signature successfully'' ''Signature Successfully Validated''"
    unfolding signature_phrase_iff [symmetric]
    by (simp add: str_lower_def lower_char_def char_of_def bit_Suc_0_iff)
  have pb: "\<not> spec_contains_any_case ''signature successfully'' ''%Error verifying bootflash:a.bin''"
    unfolding signature_phrase_iff [symmetric]
    by (simp add: str_lower_def lower_char_def char_of_def bit_Suc_0_iff)
  have o: "stdout ?self = []" by (simp add: router_def init_def)
  from signature_verdict_and_message [OF h1 h2 h3 g] signature_verdict_and_message [OF h1 h2 h3 b]
    pg pb o
  show ?thesis by simp
qed

section \<open>Facts about opening, closing and the steps in sequence\<close>

lemma connect_ok:
  assumes "nm_ConnectHandler nm (device self) (world self) = (Inr c, w)"
  shows "connect nm self =
           (Inr True,
            logging_info (''Successfully connected to '' @ host (device self))
              (self\<lparr>connection := Some c, world := w,
                     calls := calls self @ [ConnectHandler_call (Inr c)]\<rparr>))"
  using assms by (simp add: connect_def)

lemma connect_fail:
  assumes "nm_ConnectHandler nm (device self) (world self) = (Inl e, w)"
  shows "fst (connect nm self) = Inr False
       \<and> calls (snd (connect nm self)) = calls self @ [ConnectHandler_call (Inl e)]
       \<and> world (snd (connect nm self)) = w
       \<and> connection (snd (connect nm self)) = connection self"
  using assms by (cases e) (simp_all add: connect_def Let_def logging_error_def)

lemma disconnect_ok:
  assumes "connection self = Some c" and "nm_disconnect nm c (world self) = (Inr u, w)"
  shows "disconnect nm self =
           (Inr (),
            logging_info (''Disconnected from '' @ host (device self))
              (self\<lparr>world := w, calls := calls self @ [disconnect_call c]\<rparr>))"
  using assms by (simp add: disconnect_def)

lemma disconnect_raise:
  assumes "connection self = Some c" and "nm_disconnect nm c (world self) = (Inl e, w)"
  shows "disconnect nm self =
           (Inl e, self\<lparr>world := w, calls := calls self @ [disconnect_call c]\<rparr>)"
  using assms by (simp add: disconnect_def)

lemma disconnect_calls:
  assumes "connection self = Some c"
  shows "calls (snd (disconnect nm self)) = calls self @ [disconnect_call c]"
proof (cases "nm_disconnect nm c (world self)")
  case (Pair r w)
  show ?thesis
  proof (cases r)
    case (Inl e)
    with Pair disconnect_raise [OF assms, of nm e w] show ?thesis by simp
  next
    case (Inr u)
    with Pair disconnect_ok [OF assms, of nm u w] show ?thesis by (simp add: logging_info_def)
  qed
qed

lemma candidate_nonempty:
  assumes "f \<in> set (spec_candidates listing)"
  shows "f \<noteq> []"
proof -
  from assms obtain line where "str_contains ''.bin'' line" "f = last (str_split line)"
    by (auto simp: spec_candidates_def)
  then have "spec_final_token line f"
    using str_split_final_token [of line] contains_bin_split [of line] by simp
  then show ?thesis by (simp add: spec_final_token_def)
qed

text \<open>Each step returns a truth value, keeps the connection, and sends commands only.\<close>

lemma find_summary:
  assumes "connection s = Some c"
  shows "(\<exists>b. fst (find_latest_iosxe_file nm s) = Inr b)
       \<and> connection (snd (find_latest_iosxe_file nm s)) = Some c
       \<and> (\<exists>tr. calls (snd (find_latest_iosxe_file nm s)) = calls s @ tr \<and> list_all is_command tr)
       \<and> (fst (find_latest_iosxe_file nm s) = Inr True
             \<longrightarrow> truthy (iosbootfile (snd (find_latest_iosxe_file nm s))))"
proof (cases "nm_send_command nm c ''dir bootflash:'' None (world s)")
  case (Pair r w)
  show ?thesis
  proof (cases r)
    case (Inl e)
    with Pair find_latest_raise [OF assms, of nm e w] assms show ?thesis
      by (auto simp add: logging_error_def)
  next
    case (Inr listing)
    show ?thesis
    proof (cases "sort_reverse (spec_candidates listing)")
      case Nil
      then have "spec_candidates listing = []" by (simp add: sort_reverse_Nil_iff)
      with Pair Inr find_latest_none [OF assms, of nm listing w] assms show ?thesis
        by (auto simp add: logging_error_def)
    next
      case (Cons f fs)
      with Pair Inr have e: "find_latest_iosxe_file nm s =
           (Inr True,
            logging_info (''Latest IOS-XE image found: '' @ f)
              (s\<lparr>world := w, calls := calls s @ [send_command_call c ''dir bootflash:'' None],
                     iosbootfile := Some f\<rparr>))"
        using find_latest_some [OF assms, of nm listing w f fs] by simp
      have "f \<in> set (spec_candidates listing)" using sort_reverse_hd [OF Cons] by simp
      then have "f \<noteq> []" by (rule candidate_nonempty)
      with e assms show ?thesis by (auto simp add: logging_info_def truthy_def)
    qed
  qed
qed

lemma validate_summary:
  assumes "connection s = Some c"
  shows "(\<exists>b. fst (validate_boot_statement nm s) = Inr b)
       \<and> connection (snd (validate_boot_statement nm s)) = Some c
       \<and> (\<exists>tr. calls (snd (validate_boot_statement nm s)) = calls s @ tr \<and> list_all is_command tr)
       \<and> iosbootfile (snd (validate_boot_statement nm s)) = iosbootfile s"
proof (cases "truthy (iosbootfile s)")
  case False
  from validate_absent [OF this, of nm] assms show ?thesis by (auto simp add: logging_error_def)
next
  case True
  then obtain x where x: "iosbootfile s = Some x" "x \<noteq> []" by (auto simp: truthy_iff)
  show ?thesis
  proof (cases "nm_send_command nm c ''show run | include boot system'' None (world s)")
    case (Pair r w)
    show ?thesis
    proof (cases r)
      case (Inl e)
      with Pair validate_raise [OF True assms, of nm e w] assms show ?thesis
        by (auto simp add: logging_error_def)
    next
      case (Inr out)
      with Pair validate_text [OF x assms, of nm out w] assms x show ?thesis
        by (auto simp add: logging_error_def logging_info_def)
    qed
  qed
qed

lemma verify_summary:
  assumes "connection s = Some c"
  shows "(\<exists>b. fst (verify_ios_image_signature nm s) = Inr b)
       \<and> connection (snd (verify_ios_image_signature nm s)) = Some c
       \<and> (\<exists>tr. calls (snd (verify_ios_image_signature nm s)) = calls s @ tr \<and> list_all is_command tr)"
proof (cases "truthy (iosbootfile s)")
  case False
  from verify_absent [OF this, of nm] assms show ?thesis by (auto simp add: logging_error_def)
next
  case True
  then obtain x where x: "iosbootfile s = Some x" "x \<noteq> []" by (auto simp: truthy_iff)
  show ?thesis
  proof (cases "nm_send_command nm c (''verify bootflash:'' @ x) (Some 1000) (world s)")
    case (Pair r w)
    show ?thesis
    proof (cases r)
      case (Inl e)
      with Pair verify_raise [OF x assms, of nm e w] assms show ?thesis
        by (auto simp add: logging_error_def)
    next
      case (Inr out)
      with Pair verify_text [OF x assms, of nm out w] assms x show ?thesis
        by (auto simp add: logging_error_def logging_info_def print_def)
    qed
  qed
qed

lemma disconnect_raise_source:
  assumes "fst (disconnect nm s) = Inl e"
  shows "\<exists>c w w'. nm_disconnect nm c w = (Inl e, w')"
proof (cases "connection s")
  case None
  with assms show ?thesis by (simp add: disconnect_def)
next
  case (Some c)
  show ?thesis
  proof (cases "nm_disconnect nm c (world s)")
    case (Pair r w')
    with Some assms have "r = Inl e" by (cases r) (simp_all add: disconnect_def)
    with Pair show ?thesis by blast
  qed
qed

lemma steps_after_connect:
  assumes "nm_ConnectHandler nm (device self) (world self) = (Inr c, w)"
  obtains s1 b2 s2 tr2 b3 s3 tr3 b4 s4 tr4 where
    "connect nm self = (Inr True, s1)" "connection s1 = Some c"
    "calls s1 = calls self @ [ConnectHandler_call (Inr c)]"
    "find_latest_iosxe_file nm s1 = (Inr b2, s2)" "connection s2 = Some c"
    "calls s2 = calls s1 @ tr2" "list_all is_command tr2"
    "validate_boot_statement nm s2 = (Inr b3, s3)" "connection s3 = Some c"
    "calls s3 = calls s2 @ tr3" "list_all is_command tr3"
    "verify_ios_image_signature nm s3 = (Inr b4, s4)" "connection s4 = Some c"
    "calls s4 = calls s3 @ tr4" "list_all is_command tr4"
proof -
  define s1 where "s1 = snd (connect nm self)"
  have c1: "connect nm self = (Inr True, s1)" "connection s1 = Some c"
    "calls s1 = calls self @ [ConnectHandler_call (Inr c)]"
    unfolding s1_def connect_ok [OF assms] by (simp_all add: logging_info_def)
  define s2 where "s2 = snd (find_latest_iosxe_file nm s1)"
  from find_summary [OF c1(2), of nm] obtain b2 tr2 where
    f: "find_latest_iosxe_file nm s1 = (Inr b2, s2)" "connection s2 = Some c"
       "calls s2 = calls s1 @ tr2" "list_all is_command tr2"
    unfolding s2_def by (cases "find_latest_iosxe_file nm s1") auto
  define s3 where "s3 = snd (validate_boot_statement nm s2)"
  from validate_summary [OF f(2), of nm] obtain b3 tr3 where
    v: "validate_boot_statement nm s2 = (Inr b3, s3)" "connection s3 = Some c"
       "calls s3 = calls s2 @ tr3" "list_all is_command tr3"
    unfolding s3_def by (cases "validate_boot_statement nm s2") auto
  define s4 where "s4 = snd (verify_ios_image_signature nm s3)"
  from verify_summary [OF v(2), of nm] obtain b4 tr4 where
    g: "verify_ios_image_signature nm s3 = (Inr b4, s4)" "connection s4 = Some c"
       "calls s4 = calls s3 @ tr4" "list_all is_command tr4"
    unfolding s4_def by (cases "verify_ios_image_signature nm s3") auto
  from c1 f v g that show thesis by blast
qed

lemma calls_logging [simp]:
  "calls (logging_info m s) = calls s" "calls (logging_error m s) = calls s"
  "connection (logging_info m s) = connection s" "connection (logging_error m s) = connection s"
  by (simp_all add: logging_info_def logging_error_def)

text \<open>The calls of a run whose session was opened: the opening, commands, one closing.\<close>

lemma run_validation_calls_opened:
  assumes "nm_ConnectHandler nm (device self) (world self) = (Inr c, w)"
  shows "\<exists>tr. calls (snd (run_validation nm self))
                = calls self @ ConnectHandler_call (Inr c) # tr @ [disconnect_call c]
              \<and> list_all is_command tr"
proof -
  from steps_after_connect [OF assms] obtain s1 b2 s2 tr2 b3 s3 tr3 b4 s4 tr4 where
    st: "connect nm self = (Inr True, s1)" "connection s1 = Some c"
    "calls s1 = calls self @ [ConnectHandler_call (Inr c)]"
    "find_latest_iosxe_file nm s1 = (Inr b2, s2)" "connection s2 = Some c"
    "calls s2 = calls s1 @ tr2" "list_all is_command tr2"
    "validate_boot_statement nm s2 = (Inr b3, s3)" "connection s3 = Some c"
    "calls s3 = calls s2 @ tr3" "list_all is_command tr3"
    "verify_ios_image_signature nm s3 = (Inr b4, s4)" "connection s4 = Some c"
    "calls s4 = calls s3 @ tr4" "list_all is_command tr4"
    by blast
  show ?thesis
  proof (cases b2)
    case False
    let ?d = "logging_error (''Validation failed: No valid IOS-XE image found on ''
                                 @ hostname s2 @ ''.'') s2"
    have "snd (run_validation nm self) = snd (disconnect nm ?d)"
      using st(1,4) False by (simp add: run_validation_def split: prod.splits sum.splits)
    moreover have "calls (snd (disconnect nm ?d)) = calls ?d @ [disconnect_call c]"
      by (rule disconnect_calls) (simp add: st(5))
    ultimately have "calls (snd (run_validation nm self))
        = calls self @ ConnectHandler_call (Inr c) # tr2 @ [disconnect_call c]"
      using st(3,6) by simp
    with st(7) show ?thesis by blast
  next
    case b2: True
    show ?thesis
    proof (cases b3)
      case False
      let ?d = "logging_error (''Validation failed: Boot statement does not match on ''
                                        @ hostname s3) s3"
      have "snd (run_validation nm self) = snd (disconnect nm ?d)"
        using st(1,4,8) b2 False by (simp add: run_validation_def split: prod.splits sum.splits)
      moreover have "calls (snd (disconnect nm ?d)) = calls ?d @ [disconnect_call c]"
        by (rule disconnect_calls) (simp add: st(9))
      ultimately have "calls (snd (run_validation nm self))
          = calls self @ ConnectHandler_call (Inr c) # (tr2 @ tr3) @ [disconnect_call c]"
        using st(3,6,10) by simp
      moreover have "list_all is_command (tr2 @ tr3)" using st(7,11) by simp
      ultimately show ?thesis by blast
    next
      case b3: True
      have "calls (snd (run_validation nm self)) = calls (snd (disconnect nm s4))"
        using st(1,4,8,12) b2 b3
        by (simp add: run_validation_def split: prod.splits sum.splits)
      moreover have "calls (snd (disconnect nm s4)) = calls s4 @ [disconnect_call c]"
        by (rule disconnect_calls) (simp add: st(13))
      ultimately have "calls (snd (run_validation nm self))
          = calls self @ ConnectHandler_call (Inr c) # (tr2 @ tr3 @ tr4) @ [disconnect_call c]"
        using st(3,6,10,14) by simp
      moreover have "list_all is_command (tr2 @ tr3 @ tr4)" using st(7,11,15) by simp
      ultimately show ?thesis by blast
    qed
  qed
qed

lemma commands_not_opened_closed:
  assumes "list_all is_command tr"
  shows "filter is_opened tr = [] \<and> filter is_closed tr = []"
  using assms
proof (induction tr)
  case Nil
  then show ?case by simp
next
  case (Cons a tr)
  then show ?case by (cases a) simp_all
qed

lemma run_validation_not_connected:
  assumes "nm_ConnectHandler nm (device self) (world self) = (Inl e, w)"
  shows "fst (run_validation nm self) = Inr False
       \<and> calls (snd (run_validation nm self)) = calls self @ [ConnectHandler_call (Inl e)]
       \<and> world (snd (run_validation nm self)) = w"
proof -
  note f = connect_fail [OF assms]
  obtain r s1 where c: "connect nm self = (r, s1)" by (cases "connect nm self")
  with f have r: "r = Inr False" and s1: "calls s1 = calls self @ [ConnectHandler_call (Inl e)]"
    "world s1 = w" by simp_all
  have "run_validation nm self =
          (Inr False,
           logging_error (''Connection to device failed, cannot run validation on ''
                              @ hostname s1 @ ''.'') s1)"
    using c r by (simp add: run_validation_def)
  with s1 show ?thesis by (simp add: logging_error_def)
qed

lemma world_logging [simp]:
  "world (logging_info m s) = world s" "world (logging_error m s) = world s"
  "iosbootfile (logging_info m s) = iosbootfile s" "iosbootfile (logging_error m s) = iosbootfile s"
  by (simp_all add: logging_info_def logging_error_def)

lemma disconnect_fst:
  assumes "connection s = Some c"
  shows "fst (disconnect nm s) = (case fst (nm_disconnect nm c (world s)) of
                                    Inl e \<Rightarrow> Inl e | Inr u \<Rightarrow> Inr ())"
proof (cases "nm_disconnect nm c (world s)")
  case (Pair r w)
  show ?thesis
  proof (cases r)
    case (Inl e)
    with Pair disconnect_raise [OF assms, of nm e w] show ?thesis by simp
  next
    case (Inr u)
    with Pair disconnect_ok [OF assms, of nm u w] show ?thesis by simp
  qed
qed

text \<open>The run in which opening and the first three steps succeed.\<close>

lemma run_validation_pass_path:
  assumes opened: "nm_ConnectHandler nm (device self) (world self) = (Inr c, w1)"
      and listed: "nm_send_command nm c ''dir bootflash:'' None w1 = (Inr listing, w2)"
      and latest: "sort_reverse (spec_candidates listing) = f # fs"
      and queried: "nm_send_command nm c ''show run | include boot system'' None w2 = (Inr cfg, w3)"
      and boot: "str_contains (''boot system flash bootflash:'' @ f) cfg"
      and verified: "nm_send_command nm c (''verify bootflash:'' @ f) (Some 1000) w3 = (Inr out, w4)"
  shows "(let s1 = snd (connect nm self);
              s2 = snd (find_latest_iosxe_file nm s1);
              s3 = snd (validate_boot_statement nm s2)
          in fst (connect nm self) = Inr True
           \<and> fst (find_latest_iosxe_file nm s1) = Inr True
           \<and> fst (validate_boot_statement nm s2) = Inr True
           \<and> fst (verify_ios_image_signature nm s3)
               = Inr (str_contains ''signature successfully'' (str_lower out)))
       \<and> fst (run_validation nm self)
           = (case fst (nm_disconnect nm c w4) of
                Inl e \<Rightarrow> Inl e
              | Inr u \<Rightarrow> Inr (str_contains ''signature successfully'' (str_lower out)))"
proof -
  define s1 where "s1 = snd (connect nm self)"
  have c1: "connect nm self = (Inr True, s1)" "connection s1 = Some c" "world s1 = w1"
    unfolding s1_def connect_ok [OF opened] by (simp_all add: logging_info_def)
  define s2 where "s2 = snd (find_latest_iosxe_file nm s1)"
  have l: "nm_send_command nm c ''dir bootflash:'' None (world s1) = (Inr listing, w2)"
    using listed c1(3) by simp
  have c2: "find_latest_iosxe_file nm s1 = (Inr True, s2)" "connection s2 = Some c"
    "world s2 = w2" "iosbootfile s2 = Some f"
    unfolding s2_def find_latest_some [OF c1(2) l latest] using c1(2) by simp_all
  have "f \<in> set (spec_candidates listing)" using sort_reverse_hd [OF latest] by simp
  then have ne: "f \<noteq> []" by (rule candidate_nonempty)
  define s3 where "s3 = snd (validate_boot_statement nm s2)"
  have g: "nm_send_command nm c ''show run | include boot system'' None (world s2) = (Inr cfg, w3)"
    using queried c2(3) by simp
  have c3: "validate_boot_statement nm s2 = (Inr True, s3)" "connection s3 = Some c"
    "world s3 = w3" "iosbootfile s3 = Some f"
    unfolding s3_def validate_text [OF c2(4) ne c2(2) g] using boot c2(2,4) by simp_all
  define s4 where "s4 = snd (verify_ios_image_signature nm s3)"
  have v: "nm_send_command nm c (''verify bootflash:'' @ f) (Some 1000) (world s3) = (Inr out, w4)"
    using verified c3(3) by simp
  have c4: "verify_ios_image_signature nm s3
              = (Inr (str_contains ''signature successfully'' (str_lower out)), s4)"
    "connection s4 = Some c" "world s4 = w4"
    unfolding s4_def verify_text [OF c3(4) ne c3(2) v] using c3(2)
    by (simp_all add: print_def)
  have r: "fst (run_validation nm self)
             = (case fst (disconnect nm s4) of
                  Inl e \<Rightarrow> Inl e
                | Inr u \<Rightarrow> Inr (str_contains ''signature successfully'' (str_lower out)))"
    using c1(1) c2(1) c3(1) c4(1)
    by (simp add: run_validation_def split: prod.splits sum.splits)
  have "fst (run_validation nm self)
           = (case fst (nm_disconnect nm c w4) of
                Inl e \<Rightarrow> Inl e
              | Inr u \<Rightarrow> Inr (str_contains ''signature successfully'' (str_lower out)))"
    unfolding r disconnect_fst [OF c4(2)] c4(3) by (simp split: sum.splits)
  then show ?thesis
    using c1(1) c2(1) c3(1) c4(1) unfolding Let_def s1_def [symmetric] s2_def [symmetric]
      s3_def [symmetric] by simp
qed

text \<open>The run in which the listing shows no image.\<close>

lemma run_validation_no_image_path:
  assumes opened: "nm_ConnectHandler nm (device self) (world self) = (Inr c, w1)"
      and listed: "nm_send_command nm c ''dir bootflash:'' None w1 = (Inr listing, w2)"
      and none: "spec_candidates listing = []"
  shows "fst (find_latest_iosxe_file nm (snd (connect nm self))) = Inr False
       \<and> fst (run_validation nm self)
           = (case fst (nm_disconnect nm c w2) of Inl e \<Rightarrow> Inl e | Inr u \<Rightarrow> Inr False)"
proof -
  define s1 where "s1 = snd (connect nm self)"
  have c1: "connect nm self = (Inr True, s1)" "connection s1 = Some c" "world s1 = w1"
    unfolding s1_def connect_ok [OF opened] by (simp_all add: logging_info_def)
  define s2 where "s2 = snd (find_latest_iosxe_file nm s1)"
  have l: "nm_send_command nm c ''dir bootflash:'' None (world s1) = (Inr listing, w2)"
    using listed c1(3) by simp
  have c2: "find_latest_iosxe_file nm s1 = (Inr False, s2)" "connection s2 = Some c"
    "world s2 = w2"
    unfolding s2_def find_latest_none [OF c1(2) l none] using c1(2) by simp_all
  let ?d = "logging_error (''Validation failed: No valid IOS-XE image found on ''
                                 @ hostname s2 @ ''.'') s2"
  have r: "fst (run_validation nm self)
             = (case fst (disconnect nm ?d) of Inl e \<Rightarrow> Inl e | Inr u \<Rightarrow> Inr False)"
    using c1(1) c2(1) by (simp add: run_validation_def split: prod.splits sum.splits)
  have d: "connection ?d = Some c" "world ?d = w2" using c2 by simp_all
  have "fst (run_validation nm self)
           = (case fst (nm_disconnect nm c w2) of Inl e \<Rightarrow> Inl e | Inr u \<Rightarrow> Inr False)"
    unfolding r disconnect_fst [OF d(1)] d(2) by (simp split: sum.splits)
  with c2(1) show ?thesis unfolding s1_def [symmetric] by simp
qed

lemma fst_case_raise:
  "fst (case p of (Inl e, s') \<Rightarrow> (Inl e, s') | (Inr u, s') \<Rightarrow> F u s')
     = (case fst p of Inl e \<Rightarrow> Inl e | Inr u \<Rightarrow> fst (F u (snd p)))"
proof (cases p)
  case (Pair r s)
  then show ?thesis by (cases r) simp_all
qed

text \<open>The result of a run, from the results of the methods it calls.\<close>

lemma run_validation_fst:
  assumes "connect nm self = (Inr b1, s1)"
      and "find_latest_iosxe_file nm s1 = (Inr b2, s2)"
      and "validate_boot_statement nm s2 = (Inr b3, s3)"
      and "verify_ios_image_signature nm s3 = (Inr b4, s4)"
  shows "fst (run_validation nm self) =
           (if \<not> b1 then Inr False
            else if \<not> b2 then
              (case fst (disconnect nm
                     (logging_error (''Validation failed: No valid IOS-XE image found on ''
                                       @ hostname s2 @ ''.'') s2)) of
                 Inl e \<Rightarrow> Inl e | Inr u \<Rightarrow> Inr False)
            else if \<not> b3 then
              (case fst (disconnect nm
                     (logging_error (''Validation failed: Boot statement does not match on ''
                                       @ hostname s3) s3)) of
                 Inl e \<Rightarrow> Inl e | Inr u \<Rightarrow> Inr False)
            else (case fst (disconnect nm s4) of Inl e \<Rightarrow> Inl e | Inr u \<Rightarrow> Inr b4))"
proof (cases b1)
  case False
  with assms(1) show ?thesis by (simp add: run_validation_def)
next
  case b1: True
  show ?thesis
  proof (cases b2)
    case False
    with b1 assms(1,2) show ?thesis by (simp add: run_validation_def fst_case_raise cong: sum.case_cong)
  next
    case b2: True
    show ?thesis
    proof (cases b3)
      case False
      with b1 b2 assms(1,2,3) show ?thesis by (simp add: run_validation_def fst_case_raise cong: sum.case_cong)
    next
      case b3: True
      have "fst (run_validation nm self)
              = (case fst (disconnect nm s4) of Inl e \<Rightarrow> Inl e | Inr u \<Rightarrow> Inr b4)"
        using b1 b2 b3 assms by (cases b4) (simp_all add: run_validation_def fst_case_raise cong: sum.case_cong)
      with b1 b2 b3 show ?thesis by simp
    qed
  qed
qed

lemma step_results:
  assumes "nm_ConnectHandler nm (device self) (world self) = (Inr c, w)"
  shows "\<exists>s1 b2 s2 b3 s3 b4 s4.
           connect nm self = (Inr True, s1)
         \<and> find_latest_iosxe_file nm s1 = (Inr b2, s2)
         \<and> validate_boot_statement nm s2 = (Inr b3, s3)
         \<and> verify_ios_image_signature nm s3 = (Inr b4, s4)"
proof -
  from steps_after_connect [OF assms] obtain s1 b2 s2 tr2 b3 s3 tr3 b4 s4 tr4 where
    "connect nm self = (Inr True, s1)" "connection s1 = Some c"
    "calls s1 = calls self @ [ConnectHandler_call (Inr c)]"
    "find_latest_iosxe_file nm s1 = (Inr b2, s2)" "connection s2 = Some c"
    "calls s2 = calls s1 @ tr2" "list_all is_command tr2"
    "validate_boot_statement nm s2 = (Inr b3, s3)" "connection s3 = Some c"
    "calls s3 = calls s2 @ tr3" "list_all is_command tr3"
    "verify_ios_image_signature nm s3 = (Inr b4, s4)" "connection s4 = Some c"
    "calls s4 = calls s3 @ tr4" "list_all is_command tr4"
    by blast
  then show ?thesis by (intro exI conjI)
qed

lemma raise_or_False:
  "(case r of Inl e \<Rightarrow> Inl e | Inr (u :: unit) \<Rightarrow> Inr False) \<noteq> (Inr True :: exn + bool)"
  by (cases r) simp_all

text \<open>
  \<open>run_validation\<close> returns True exactly when the four methods return True in turn and
  the closing of the session returns.
\<close>

lemma run_validation_True_iff:
  "fst (run_validation nm self) = Inr True \<longleftrightarrow>
     (\<exists>s1 s2 s3 s4. connect nm self = (Inr True, s1)
        \<and> find_latest_iosxe_file nm s1 = (Inr True, s2)
        \<and> validate_boot_statement nm s2 = (Inr True, s3)
        \<and> verify_ios_image_signature nm s3 = (Inr True, s4)
        \<and> fst (disconnect nm s4) = Inr ())"
  (is "?L \<longleftrightarrow> ?R")
proof (cases "nm_ConnectHandler nm (device self) (world self)")
  case (Pair r w)
  show ?thesis
  proof (cases r)
    case (Inl e)
    with Pair have f: "nm_ConnectHandler nm (device self) (world self) = (Inl e, w)" by simp
    have "\<not> ?L" using run_validation_not_connected [OF f] by simp
    moreover have "\<not> ?R" using connect_fail [OF f] by auto
    ultimately show ?thesis by blast
  next
    case (Inr c)
    with Pair have "nm_ConnectHandler nm (device self) (world self) = (Inr c, w)" by simp
    from step_results [OF this] obtain s1 b2 s2 b3 s3 b4 s4 where
      st: "connect nm self = (Inr True, s1)"
          "find_latest_iosxe_file nm s1 = (Inr b2, s2)"
          "validate_boot_statement nm s2 = (Inr b3, s3)"
          "verify_ios_image_signature nm s3 = (Inr b4, s4)"
      by (elim exE conjE)
    have l: "?L \<longleftrightarrow> b2 \<and> b3 \<and> b4 \<and> fst (disconnect nm s4) = Inr ()"
      unfolding run_validation_fst [OF st]
      by (cases "fst (disconnect nm s4)") (simp_all add: raise_or_False)
    have r: "?R \<longleftrightarrow> b2 \<and> b3 \<and> b4 \<and> fst (disconnect nm s4) = Inr ()"
      using st by auto
    from l r show ?thesis by blast
  qed
qed

text \<open>An exception out of \<open>run_validation\<close> is one that closing the session raised.\<close>

lemma run_validation_raise_source:
  assumes "fst (run_validation nm self) = Inl e"
  shows "\<exists>c w w'. nm_disconnect nm c w = (Inl e, w')"
proof (cases "nm_ConnectHandler nm (device self) (world self)")
  case (Pair r w)
  show ?thesis
  proof (cases r)
    case (Inl e')
    with Pair assms run_validation_not_connected [of nm self e' w] show ?thesis by simp
  next
    case (Inr c)
    with Pair have "nm_ConnectHandler nm (device self) (world self) = (Inr c, w)" by simp
    from step_results [OF this] obtain s1 b2 s2 b3 s3 b4 s4 where
      st: "connect nm self = (Inr True, s1)"
          "find_latest_iosxe_file nm s1 = (Inr b2, s2)"
          "validate_boot_statement nm s2 = (Inr b3, s3)"
          "verify_ios_image_signature nm s3 = (Inr b4, s4)"
      by (elim exE conjE)
    have "\<exists>d. fst (disconnect nm d) = Inl e"
    proof (cases b2)
      case False
      with assms run_validation_fst [OF st] show ?thesis
        by (auto split: sum.splits)
    next
      case b2: True
      show ?thesis
      proof (cases b3)
        case False
        with b2 assms run_validation_fst [OF st] show ?thesis
          by (auto split: sum.splits)
      next
        case True
        with b2 assms run_validation_fst [OF st] show ?thesis
          by (auto split: sum.splits)
      qed
    qed
    then show ?thesis using disconnect_raise_source by blast
  qed
qed

lemma run_validation_returns_when_closing_returns:
  assumes "\<And>c w. \<exists>w'. nm_disconnect nm c w = (Inr (), w')"
  shows "\<exists>b. fst (run_validation nm self) = Inr b"
proof (cases "fst (run_validation nm self)")
  case (Inl e)
  from run_validation_raise_source [OF this] obtain c w w' where
    "nm_disconnect nm c w = (Inl e, w')" by blast
  moreover from assms [of c w] obtain w'' where "nm_disconnect nm c w = (Inr (), w'')" by blast
  ultimately show ?thesis by simp
next
  case (Inr b)
  then show ?thesis by blast
qed

lemma end_to_end_candidates:
  "sort_reverse (spec_candidates ''11 -rw- 620 router-boot-03.bin'') = [''router-boot-03.bin'']"
  by (simp add: spec_candidates_def str_splitlines_def is_linebreak_def str_split_def isspace_def
        sort_reverse_def)

lemma end_to_end_phrase:
  "str_contains ''signature successfully'' (str_lower ''Signature Successfully Validated'')"
  by (simp add: str_lower_def lower_char_def char_of_def bit_Suc_0_iff)

lemma end_to_end_run:
  "(let nm = scripted (Inr 1) end_to_end_device closing;
        s1 = snd (connect nm router);
        s2 = snd (find_latest_iosxe_file nm s1);
        s3 = snd (validate_boot_statement nm s2)
    in fst (connect nm router) = Inr True
     \<and> fst (find_latest_iosxe_file nm s1) = Inr True
     \<and> fst (validate_boot_statement nm s2) = Inr True
     \<and> fst (verify_ios_image_signature nm s3) = Inr True
     \<and> fst (run_validation nm router) = (case closing of Inl e \<Rightarrow> Inl e | Inr u \<Rightarrow> Inr True))"
proof -
  let ?nm = "scripted (Inr 1) end_to_end_device closing"
  have o: "nm_ConnectHandler ?nm (device router) (world router) = (Inr 1, Suc 0)"
    by (simp add: scripted_def router_def init_def)
  have l: "nm_send_command ?nm 1 ''dir bootflash:'' None (Suc 0)
             = (Inr ''11 -rw- 620 router-boot-03.bin'', Suc (Suc 0))"
    by (simp add: scripted_def end_to_end_device_def)
  have q: "nm_send_command ?nm 1 ''show run | include boot system'' None (Suc (Suc 0))
             = (Inr ''boot system flash bootflash:router-boot-03.bin'', Suc (Suc (Suc 0)))"
    by (simp add: scripted_def end_to_end_device_def)
  have b: "str_contains (''boot system flash bootflash:'' @ ''router-boot-03.bin'')
             ''boot system flash bootflash:router-boot-03.bin''"
    by simp
  have v: "nm_send_command ?nm 1 (''verify bootflash:'' @ ''router-boot-03.bin'') (Some 1000)
             (Suc (Suc (Suc 0)))
             = (Inr ''Signature Successfully Validated'', Suc (Suc (Suc (Suc 0))))"
    by (simp add: scripted_def end_to_end_device_def)
  have d: "fst (nm_disconnect ?nm 1 (Suc (Suc (Suc (Suc 0))))) = closing"
    by (simp add: scripted_def)
  from run_validation_pass_path [OF o l end_to_end_candidates q b v]
  show ?thesis
    unfolding d Let_def using end_to_end_phrase by (simp cong: sum.case_cong)
qed


section \<open>The Verification Orchestrator\<close>

text \<open>
  Claim C7. When \<open>ConnectHandler\<close> raises, whatever the exception, \<open>run_validation\<close>
  returns False and the only call made to the transport is the failed opening: no
  \<open>send_command\<close> (listing, configuration query or verification) and no closing.
\<close>

theorem connect_failure_short_circuits:
  assumes "nm_ConnectHandler nm (device self) (world self) = (Inl e, w)"
  shows "fst (run_validation nm self) = Inr False
       \<and> calls (snd (run_validation nm self)) = calls self @ [ConnectHandler_call (Inl e)]
       \<and> filter is_command (calls (snd (run_validation nm self))) = filter is_command (calls self)
       \<and> world (snd (run_validation nm self)) = w"
  using run_validation_not_connected [OF assms] by simp

theorem connect_failure_short_circuits_witness:
  "fst (run_validation (scripted (Inl (NetmikoTimeoutException ''timed out'')) (\<lambda>cmd. Inr ''ok'') (Inr ()))
          router) = Inr False
   \<and> calls (snd (run_validation
          (scripted (Inl (NetmikoTimeoutException ''timed out'')) (\<lambda>cmd. Inr ''ok'') (Inr ()))
          router)) = [ConnectHandler_call (Inl (NetmikoTimeoutException ''timed out''))]
   \<and> fst (run_validation
          (scripted (Inl (NetmikoAuthenticationException ''denied'')) (\<lambda>cmd. Inr ''ok'') (Inr ()))
          router) = Inr False
   \<and> fst (run_validation (scripted (Inl (OtherException ''no route'')) (\<lambda>cmd. Inr ''ok'') (Inr ()))
          router) = Inr False"
proof -
  have h: "nm_ConnectHandler (scripted (Inl e) (\<lambda>cmd. Inr ''ok'') (Inr ())) (device router) (world router)
             = (Inl e, Suc 0)" for e
    by (simp add: scripted_def router_def init_def)
  have c: "calls router = []" by (simp add: router_def init_def)
  from connect_failure_short_circuits [OF h [of "NetmikoTimeoutException ''timed out''"]]
    connect_failure_short_circuits [OF h [of "NetmikoAuthenticationException ''denied''"]]
    connect_failure_short_circuits [OF h [of "OtherException ''no route''"]] c
  show ?thesis by simp
qed

text \<open>Each method with a handler returns a truth value, whatever the transport does.\<close>

lemma connect_returns: "\<exists>b. fst (connect nm s) = Inr b"
proof (cases "nm_ConnectHandler nm (device s) (world s)")
  case (Pair r w)
  show ?thesis
  proof (cases r)
    case (Inl e)
    with Pair connect_fail [of nm s e w] show ?thesis by auto
  next
    case (Inr c)
    with Pair connect_ok [of nm s c w] show ?thesis by auto
  qed
qed

lemma find_returns: "\<exists>b. fst (find_latest_iosxe_file nm s) = Inr b"
proof (cases "find_latest_iosxe_file_try nm s")
  case (Pair r s')
  then show ?thesis by (cases r) (auto simp add: find_latest_iosxe_file_def)
qed

lemma validate_returns: "\<exists>b. fst (validate_boot_statement nm s) = Inr b"
proof (cases "validate_boot_statement_try nm s")
  case (Pair r s')
  then show ?thesis by (cases r) (auto simp add: validate_boot_statement_def)
qed

lemma verify_returns: "\<exists>b. fst (verify_ios_image_signature nm s) = Inr b"
proof (cases "verify_ios_image_signature_try nm s")
  case (Pair r s')
  then show ?thesis by (cases r) (auto simp add: verify_ios_image_signature_def)
qed

lemma disconnect_returns:
  assumes "\<And>c w. \<exists>w'. nm_disconnect nm c w = (Inr (), w')"
  shows "fst (disconnect nm s) = Inr ()"
proof (cases "fst (disconnect nm s)")
  case (Inl e)
  from disconnect_raise_source [OF this] obtain c w w' where
    "nm_disconnect nm c w = (Inl e, w')" by blast
  moreover from assms [of c w] obtain w'' where "nm_disconnect nm c w = (Inr (), w'')" by blast
  ultimately show ?thesis by simp
next
  case (Inr u)
  then show ?thesis by simp
qed

lemma after_disconnect:
  assumes "fst (disconnect nm d) = Inr ()"
  shows "(case disconnect nm d of (Inl e, s') \<Rightarrow> (Inl e, s') | (Inr u, s') \<Rightarrow> F u s')
           = F () (snd (disconnect nm d))"
proof (cases "disconnect nm d")
  case (Pair r s')
  with assms show ?thesis by (cases r) simp_all
qed

text \<open>The five ways through \<open>run_validation\<close>, when the closing of the session returns.\<close>

lemma run_validation_paths:
  assumes closes: "\<And>c w. \<exists>w'. nm_disconnect nm c w = (Inr (), w')"
  shows "connect nm self = (Inr False, s1) \<Longrightarrow>
           run_validation nm self =
             (Inr False,
              logging_error (''Connection to device failed, cannot run validation on ''
                               @ hostname s1 @ ''.'') s1)"
    and "connect nm self = (Inr True, s1) \<Longrightarrow> find_latest_iosxe_file nm s1 = (Inr False, s2) \<Longrightarrow>
           run_validation nm self =
             (Inr False,
              snd (disconnect nm
                     (logging_error (''Validation failed: No valid IOS-XE image found on ''
                                       @ hostname s2 @ ''.'') s2)))"
    and "connect nm self = (Inr True, s1) \<Longrightarrow> find_latest_iosxe_file nm s1 = (Inr True, s2) \<Longrightarrow>
         validate_boot_statement nm s2 = (Inr False, s3) \<Longrightarrow>
           run_validation nm self =
             (Inr False,
              snd (disconnect nm
                     (logging_error (''Validation failed: Boot statement does not match on ''
                                       @ hostname s3) s3)))"
    and "connect nm self = (Inr True, s1) \<Longrightarrow> find_latest_iosxe_file nm s1 = (Inr True, s2) \<Longrightarrow>
         validate_boot_statement nm s2 = (Inr True, s3) \<Longrightarrow>
         verify_ios_image_signature nm s3 = (Inr False, s4) \<Longrightarrow>
           run_validation nm self =
             (Inr False,
              logging_error (''Validation failed: Signature verification failed on ''
                               @ hostname (snd (disconnect nm s4)) @ ''.'')
                (snd (disconnect nm s4)))"
    and "connect nm self = (Inr True, s1) \<Longrightarrow> find_latest_iosxe_file nm s1 = (Inr True, s2) \<Longrightarrow>
         validate_boot_statement nm s2 = (Inr True, s3) \<Longrightarrow>
         verify_ios_image_signature nm s3 = (Inr True, s4) \<Longrightarrow>
           run_validation nm self =
             (Inr True,
              logging_info (''Validation complete: All checks passed successfully on ''
                              @ hostname (snd (disconnect nm s4)) @ ''.'')
                (snd (disconnect nm s4)))"
proof -
  note d = after_disconnect [OF disconnect_returns [OF closes]]
  show "connect nm self = (Inr False, s1) \<Longrightarrow>
           run_validation nm self =
             (Inr False,
              logging_error (''Connection to device failed, cannot run validation on ''
                               @ hostname s1 @ ''.'') s1)"
    by (simp add: run_validation_def)
  show "connect nm self = (Inr True, s1) \<Longrightarrow> find_latest_iosxe_file nm s1 = (Inr False, s2) \<Longrightarrow>
           run_validation nm self =
             (Inr False,
              snd (disconnect nm
                     (logging_error (''Validation failed: No valid IOS-XE image found on ''
                                       @ hostname s2 @ ''.'') s2)))"
    by (simp add: run_validation_def d)
  show "connect nm self = (Inr True, s1) \<Longrightarrow> find_latest_iosxe_file nm s1 = (Inr True, s2) \<Longrightarrow>
         validate_boot_statement nm s2 = (Inr False, s3) \<Longrightarrow>
           run_validation nm self =
             (Inr False,
              snd (disconnect nm
                     (logging_error (''Validation failed: Boot statement does not match on ''
                                       @ hostname s3) s3)))"
    by (simp add: run_validation_def d)
  show "connect nm self = (Inr True, s1) \<Longrightarrow> find_latest_iosxe_file nm s1 = (Inr True, s2) \<Longrightarrow>
         validate_boot_statement nm s2 = (Inr True, s3) \<Longrightarrow>
         verify_ios_image_signature nm s3 = (Inr False, s4) \<Longrightarrow>
           run_validation nm self =
             (Inr False,
              logging_error (''Validation failed: Signature verification failed on ''
                               @ hostname (snd (disconnect nm s4)) @ ''.'')
                (snd (disconnect nm s4)))"
    by (simp add: run_validation_def d)
  show "connect nm self = (Inr True, s1) \<Longrightarrow> find_latest_iosxe_file nm s1 = (Inr True, s2) \<Longrightarrow>
         validate_boot_statement nm s2 = (Inr True, s3) \<Longrightarrow>
         verify_ios_image_signature nm s3 = (Inr True, s4) \<Longrightarrow>
           run_validation nm self =
             (Inr True,
              logging_info (''Validation complete: All checks passed successfully on ''
                              @ hostname (snd (disconnect nm s4)) @ ''.'')
                (snd (disconnect nm s4)))"
    by (simp add: run_validation_def d)
qed

section \<open>Facts about what the transport receives\<close>

text \<open>Each operation of \<open>recording nm\<close> gives the result and the world that \<open>nm\<close> gives.\<close>

lemma recording_forwards:
  "fst (nm_ConnectHandler (recording nm) d (w, tr)) = fst (nm_ConnectHandler nm d w)"
  "fst (snd (nm_ConnectHandler (recording nm) d (w, tr))) = snd (nm_ConnectHandler nm d w)"
  "fst (nm_send_command (recording nm) c cmd t (w, tr)) = fst (nm_send_command nm c cmd t w)"
  "fst (snd (nm_send_command (recording nm) c cmd t (w, tr))) = snd (nm_send_command nm c cmd t w)"
  "fst (nm_disconnect (recording nm) c (w, tr)) = fst (nm_disconnect nm c w)"
  "fst (snd (nm_disconnect (recording nm) c (w, tr))) = snd (nm_disconnect nm c w)"
  by (simp_all add: recording_def split: prod.splits)

lemma received_logging [simp]:
  "received (logging_info m s) = received s" "received (logging_error m s) = received s"
  "received (print m s) = received s"
  by (simp_all add: received_def logging_info_def logging_error_def print_def)

lemma calls_print [simp]: "calls (print m s) = calls s"
  by (simp add: print_def)

lemma connect_received:
  "\<exists>tr. calls (snd (connect (recording nm) s)) = calls s @ tr
      \<and> received (snd (connect (recording nm) s)) = received s @ tr"
proof (cases "world s")
  case (Pair w tr0)
  show ?thesis
  proof (cases "nm_ConnectHandler nm (device s) w")
    case nmr: (Pair r w')
    show ?thesis
    proof (cases r)
      case (Inl e)
      have "nm_ConnectHandler (recording nm) (device s) (world s)
              = (Inl e, (w', tr0 @ [ConnectHandler_call (Inl e)]))"
        using Pair nmr Inl by (simp add: recording_def)
      from connect_fail [OF this] Pair show ?thesis by (simp add: received_def)
    next
      case (Inr c)
      have "nm_ConnectHandler (recording nm) (device s) (world s)
              = (Inr c, (w', tr0 @ [ConnectHandler_call (Inr c)]))"
        using Pair nmr Inr by (simp add: recording_def)
      from connect_ok [OF this] Pair show ?thesis by (simp add: received_def logging_info_def)
    qed
  qed
qed

lemma send_received:
  "\<exists>tr. calls (snd (connection_send_command (recording nm) cmd t s)) = calls s @ tr
      \<and> received (snd (connection_send_command (recording nm) cmd t s)) = received s @ tr"
proof (cases "connection s")
  case None
  then show ?thesis by (simp add: connection_send_command_def)
next
  case (Some c)
  show ?thesis
  proof (cases "world s")
    case (Pair w tr0)
    show ?thesis
    proof (cases "nm_send_command nm c cmd t w")
      case nmr: (Pair r w')
      have "nm_send_command (recording nm) c cmd t (world s)
              = (r, (w', tr0 @ [send_command_call c cmd t]))"
        using Pair nmr by (simp add: recording_def)
      with Some Pair show ?thesis by (simp add: connection_send_command_def received_def)
    qed
  qed
qed

lemma disconnect_received:
  "\<exists>tr. calls (snd (disconnect (recording nm) s)) = calls s @ tr
      \<and> received (snd (disconnect (recording nm) s)) = received s @ tr"
proof (cases "connection s")
  case None
  then show ?thesis by (simp add: disconnect_def)
next
  case (Some c)
  show ?thesis
  proof (cases "world s")
    case (Pair w tr0)
    show ?thesis
    proof (cases "nm_disconnect nm c w")
      case nmr: (Pair r w')
      show ?thesis
      proof (cases r)
        case (Inl e)
        have "nm_disconnect (recording nm) c (world s) = (Inl e, (w', tr0 @ [disconnect_call c]))"
          using Pair nmr Inl by (simp add: recording_def)
        from disconnect_raise [OF Some this] Pair show ?thesis by (simp add: received_def)
      next
        case (Inr u)
        have "nm_disconnect (recording nm) c (world s) = (Inr u, (w', tr0 @ [disconnect_call c]))"
          using Pair nmr Inr by (simp add: recording_def)
        from disconnect_ok [OF Some this] Pair show ?thesis
          by (simp add: received_def logging_info_def)
      qed
    qed
  qed
qed

text \<open>A step changes the world and the calls only through the command it sends.\<close>

lemma find_frame:
  "calls (snd (find_latest_iosxe_file nm s))
     = calls (snd (connection_send_command nm ''dir bootflash:'' None s))
   \<and> world (snd (find_latest_iosxe_file nm s))
     = world (snd (connection_send_command nm ''dir bootflash:'' None s))"
proof (cases "connection_send_command nm ''dir bootflash:'' None s")
  case (Pair r s1)
  have t: "calls (snd (find_latest_iosxe_file_try nm s)) = calls s1
         \<and> world (snd (find_latest_iosxe_file_try nm s)) = world s1"
    unfolding find_latest_iosxe_file_try_def Pair
    by (simp split: sum.splits list.splits)
  show ?thesis
  proof (cases "find_latest_iosxe_file_try nm s")
    case p: (Pair r' s')
    with t have "calls s' = calls s1 \<and> world s' = world s1" by simp
    then show ?thesis unfolding find_latest_iosxe_file_def p Pair by (simp split: sum.splits)
  qed
qed

lemma validate_frame:
  "(\<not> truthy (iosbootfile s) \<longrightarrow>
       calls (snd (validate_boot_statement nm s)) = calls s
     \<and> world (snd (validate_boot_statement nm s)) = world s)
   \<and> (truthy (iosbootfile s) \<longrightarrow>
       calls (snd (validate_boot_statement nm s))
         = calls (snd (connection_send_command nm ''show run | include boot system'' None s))
     \<and> world (snd (validate_boot_statement nm s))
         = world (snd (connection_send_command nm ''show run | include boot system'' None s)))"
proof (cases "truthy (iosbootfile s)")
  case False
  with validate_absent [OF False, of nm] show ?thesis by simp
next
  case True
  show ?thesis
  proof (cases "connection_send_command nm ''show run | include boot system'' None s")
    case (Pair r s1)
    have t: "calls (snd (validate_boot_statement_try nm s)) = calls s1
           \<and> world (snd (validate_boot_statement_try nm s)) = world s1"
      unfolding validate_boot_statement_try_def Pair using True
      by (simp add: Let_def split: sum.splits)
    show ?thesis
    proof (cases "validate_boot_statement_try nm s")
      case p: (Pair r' s')
      with t have "calls s' = calls s1 \<and> world s' = world s1" by simp
      then show ?thesis unfolding validate_boot_statement_def p Pair using True
        by (simp split: sum.splits)
    qed
  qed
qed

lemma world_print [simp]: "world (print m s) = world s"
  by (simp add: print_def)

lemma verify_frame:
  "(\<not> truthy (iosbootfile s) \<longrightarrow>
       calls (snd (verify_ios_image_signature nm s)) = calls s
     \<and> world (snd (verify_ios_image_signature nm s)) = world s)
   \<and> (truthy (iosbootfile s) \<longrightarrow>
       calls (snd (verify_ios_image_signature nm s))
         = calls (snd (connection_send_command nm (''verify bootflash:'' @ fmt (iosbootfile s))
                         (Some 1000) s))
     \<and> world (snd (verify_ios_image_signature nm s))
         = world (snd (connection_send_command nm (''verify bootflash:'' @ fmt (iosbootfile s))
                         (Some 1000) s)))"
proof (cases "truthy (iosbootfile s)")
  case False
  with verify_absent [OF False, of nm] show ?thesis by simp
next
  case True
  show ?thesis
  proof (cases "connection_send_command nm (''verify bootflash:'' @ fmt (iosbootfile s))
                  (Some 1000) s")
    case (Pair r s1)
    have t: "calls (snd (verify_ios_image_signature_try nm s)) = calls s1
           \<and> world (snd (verify_ios_image_signature_try nm s)) = world s1"
      unfolding verify_ios_image_signature_try_def Pair using True
      by (simp add: Let_def split: sum.splits)
    show ?thesis
    proof (cases "verify_ios_image_signature_try nm s")
      case p: (Pair r' s')
      with t have "calls s' = calls s1 \<and> world s' = world s1" by simp
      then show ?thesis unfolding verify_ios_image_signature_def p Pair using True
        by (simp split: sum.splits)
    qed
  qed
qed

lemma find_received:
  "\<exists>tr. calls (snd (find_latest_iosxe_file (recording nm) s)) = calls s @ tr
      \<and> received (snd (find_latest_iosxe_file (recording nm) s)) = received s @ tr"
  using send_received [of nm "''dir bootflash:''" None s] find_frame [of "recording nm" s]
  by (simp add: received_def)

lemma validate_received:
  "\<exists>tr. calls (snd (validate_boot_statement (recording nm) s)) = calls s @ tr
      \<and> received (snd (validate_boot_statement (recording nm) s)) = received s @ tr"
  using send_received [of nm "''show run | include boot system''" None s]
    validate_frame [of s "recording nm"]
  by (cases "truthy (iosbootfile s)") (simp_all add: received_def)

lemma verify_received:
  "\<exists>tr. calls (snd (verify_ios_image_signature (recording nm) s)) = calls s @ tr
      \<and> received (snd (verify_ios_image_signature (recording nm) s)) = received s @ tr"
  using send_received [of nm "''verify bootflash:'' @ fmt (iosbootfile s)" "Some 1000" s]
    verify_frame [of s "recording nm"]
  by (cases "truthy (iosbootfile s)") (simp_all add: received_def)

lemma grow_trans:
  assumes "\<exists>tr. c1 = c0 @ tr \<and> r1 = r0 @ tr" and "\<exists>tr. c2 = c1 @ tr \<and> r2 = r1 @ tr"
  shows "\<exists>tr. c2 = (c0 :: 'a list) @ tr \<and> r2 = (r0 :: 'a list) @ tr"
  using assms by auto

text \<open>
  Over a whole run the transport receives exactly the calls the instance records, in the
  same order.
\<close>

lemma run_validation_received:
  "\<exists>tr. calls (snd (run_validation (recording nm) self)) = calls self @ tr
      \<and> received (snd (run_validation (recording nm) self)) = received self @ tr"
proof -
  let ?N = "recording nm"
  obtain b1 where "fst (connect ?N self) = Inr b1" using connect_returns by blast
  then obtain s1 where c1: "connect ?N self = (Inr b1, s1)" by (cases "connect ?N self") simp
  obtain b2 where "fst (find_latest_iosxe_file ?N s1) = Inr b2" using find_returns by blast
  then obtain s2 where c2: "find_latest_iosxe_file ?N s1 = (Inr b2, s2)"
    by (cases "find_latest_iosxe_file ?N s1") simp
  obtain b3 where "fst (validate_boot_statement ?N s2) = Inr b3" using validate_returns by blast
  then obtain s3 where c3: "validate_boot_statement ?N s2 = (Inr b3, s3)"
    by (cases "validate_boot_statement ?N s2") simp
  obtain b4 where "fst (verify_ios_image_signature ?N s3) = Inr b4" using verify_returns by blast
  then obtain s4 where c4: "verify_ios_image_signature ?N s3 = (Inr b4, s4)"
    by (cases "verify_ios_image_signature ?N s3") simp
  have g1: "\<exists>tr. calls s1 = calls self @ tr \<and> received s1 = received self @ tr"
    using connect_received [of nm self] c1 by simp
  have g2: "\<exists>tr. calls s2 = calls self @ tr \<and> received s2 = received self @ tr"
    using grow_trans [OF g1] find_received [of nm s1] c2 by simp
  have g3: "\<exists>tr. calls s3 = calls self @ tr \<and> received s3 = received self @ tr"
    using grow_trans [OF g2] validate_received [of nm s2] c3 by simp
  have g4: "\<exists>tr. calls s4 = calls self @ tr \<and> received s4 = received self @ tr"
    using grow_trans [OF g3] verify_received [of nm s3] c4 by simp
  have d: "\<exists>tr. calls (snd (disconnect ?N (logging_error m s))) = calls self @ tr
                \<and> received (snd (disconnect ?N (logging_error m s))) = received self @ tr"
    if "\<exists>tr. calls s = calls self @ tr \<and> received s = received self @ tr" for m s
  proof -
    from that have "\<exists>tr. calls (logging_error m s) = calls self @ tr
                        \<and> received (logging_error m s) = received self @ tr" by simp
    from grow_trans [OF this disconnect_received [of nm "logging_error m s"]] show ?thesis .
  qed
  have d4: "\<exists>tr. calls (snd (disconnect ?N s4)) = calls self @ tr
                \<and> received (snd (disconnect ?N s4)) = received self @ tr"
    by (rule grow_trans [OF g4 disconnect_received [of nm s4]])
  show ?thesis
  proof (cases b1)
    case False
    with c1 have "snd (run_validation ?N self)
        = logging_error (''Connection to device failed, cannot run validation on ''
                              @ hostname s1 @ ''.'') s1"
      by (simp add: run_validation_def)
    with g1 show ?thesis by simp
  next
    case b1: True
    show ?thesis
    proof (cases b2)
      case False
      with b1 c1 c2 have "snd (run_validation ?N self)
          = snd (disconnect ?N (logging_error (''Validation failed: No valid IOS-XE image found on ''
                                 @ hostname s2 @ ''.'') s2))"
        by (simp add: run_validation_def split: prod.splits sum.splits)
      with d [OF g2] show ?thesis by simp
    next
      case b2: True
      show ?thesis
      proof (cases b3)
        case False
        with b1 b2 c1 c2 c3 have "snd (run_validation ?N self)
            = snd (disconnect ?N (logging_error (''Validation failed: Boot statement does not match on ''
                                        @ hostname s3) s3))"
          by (simp add: run_validation_def split: prod.splits sum.splits)
        with d [OF g3] show ?thesis by simp
      next
        case b3: True
        from b1 b2 b3 c1 c2 c3 c4
        have "calls (snd (run_validation ?N self)) = calls (snd (disconnect ?N s4))
            \<and> received (snd (run_validation ?N self)) = received (snd (disconnect ?N s4))"
          by (simp add: run_validation_def split: prod.splits sum.splits)
        with d4 show ?thesis by simp
      qed
    qed
  qed
qed

lemma disconnect_world:
  assumes "connection s = Some c"
  shows "world (snd (disconnect nm s)) = snd (nm_disconnect nm c (world s))"
proof (cases "nm_disconnect nm c (world s)")
  case (Pair r w)
  show ?thesis
  proof (cases r)
    case (Inl e)
    with Pair disconnect_raise [OF assms, of nm e w] show ?thesis by simp
  next
    case (Inr u)
    with Pair disconnect_ok [OF assms, of nm u w] show ?thesis by simp
  qed
qed

text \<open>The last thing a run with an opened session does to the transport is to close it.\<close>

lemma run_validation_ends_closing:
  assumes "nm_ConnectHandler nm (device self) (world self) = (Inr c, w)"
  shows "\<exists>w4. world (snd (run_validation nm self)) = snd (nm_disconnect nm c w4)"
proof -
  from steps_after_connect [OF assms] obtain s1 b2 s2 tr2 b3 s3 tr3 b4 s4 tr4 where
    st: "connect nm self = (Inr True, s1)" "connection s1 = Some c"
    "calls s1 = calls self @ [ConnectHandler_call (Inr c)]"
    "find_latest_iosxe_file nm s1 = (Inr b2, s2)" "connection s2 = Some c"
    "calls s2 = calls s1 @ tr2" "list_all is_command tr2"
    "validate_boot_statement nm s2 = (Inr b3, s3)" "connection s3 = Some c"
    "calls s3 = calls s2 @ tr3" "list_all is_command tr3"
    "verify_ios_image_signature nm s3 = (Inr b4, s4)" "connection s4 = Some c"
    "calls s4 = calls s3 @ tr4" "list_all is_command tr4"
    by blast
  have "\<exists>d. connection d = Some c
            \<and> world (snd (run_validation nm self)) = world (snd (disconnect nm d))"
  proof (cases b2)
    case False
    let ?d = "logging_error (''Validation failed: No valid IOS-XE image found on ''
                                 @ hostname s2 @ ''.'') s2"
    have "snd (run_validation nm self) = snd (disconnect nm ?d)"
      using st(1,4) False by (simp add: run_validation_def split: prod.splits sum.splits)
    moreover have "connection ?d = Some c" using st(5) by simp
    ultimately show ?thesis by metis
  next
    case b2: True
    show ?thesis
    proof (cases b3)
      case False
      let ?d = "logging_error (''Validation failed: Boot statement does not match on ''
                                        @ hostname s3) s3"
      have "snd (run_validation nm self) = snd (disconnect nm ?d)"
        using st(1,4,8) b2 False by (simp add: run_validation_def split: prod.splits sum.splits)
      moreover have "connection ?d = Some c" using st(9) by simp
      ultimately show ?thesis by metis
    next
      case b3: True
      have "world (snd (run_validation nm self)) = world (snd (disconnect nm s4))"
        using st(1,4,8,12) b2 b3
        by (simp add: run_validation_def split: prod.splits sum.splits)
      with st(13) show ?thesis by metis
    qed
  qed
  then obtain d where "connection d = Some c"
    "world (snd (run_validation nm self)) = world (snd (disconnect nm d))" by blast
  with disconnect_world [of d c nm] show ?thesis by metis
qed


section \<open>The Verification Orchestrator: closing, verdict and errors\<close>

text \<open>
  Claim C2. Run against any transport, with the calls it receives recorded on the
  transport's side: the transport receives exactly the calls the instance makes; among
  them the sessions opened and the closings are equal in number; when the session was
  opened the transport receives exactly one closing, for that connection, as the last call
  of the run, whichever step failed or none; when it was not opened it receives none.
  With any transport, the world that a run with an opened session leaves is the one the
  transport's \<open>disconnect\<close> returned: closing is the last thing done to the transport.
\<close>

theorem session_closed_exactly_once:
  "\<exists>tr. received (snd (run_validation (recording nm) self)) = received self @ tr
        \<and> calls (snd (run_validation (recording nm) self)) = calls self @ tr
        \<and> open_count tr = close_count tr
        \<and> (\<forall>c w. nm_ConnectHandler nm (device self) (fst (world self)) = (Inr c, w) \<longrightarrow>
              open_count tr = 1 \<and> close_count tr = 1 \<and> last tr = disconnect_call c)
        \<and> (\<forall>e w. nm_ConnectHandler nm (device self) (fst (world self)) = (Inl e, w) \<longrightarrow>
              open_count tr = 0 \<and> close_count tr = 0)
        \<and> (\<forall>c w. nm_ConnectHandler nm (device other) (world other) = (Inr c, w) \<longrightarrow>
              (\<exists>w4. world (snd (run_validation nm other)) = snd (nm_disconnect nm c w4)))"
proof -
  have e: "\<forall>c w. nm_ConnectHandler nm (device other) (world other) = (Inr c, w) \<longrightarrow>
              (\<exists>w4. world (snd (run_validation nm other)) = snd (nm_disconnect nm c w4))"
    using run_validation_ends_closing [of nm other] by blast
  from run_validation_received [of nm self] obtain tr where
    tr: "calls (snd (run_validation (recording nm) self)) = calls self @ tr"
        "received (snd (run_validation (recording nm) self)) = received self @ tr"
    by blast
  obtain w0 tr0 where w0: "world self = (w0, tr0)" by (cases "world self")
  obtain r w where o: "nm_ConnectHandler nm (device self) w0 = (r, w)"
    by (cases "nm_ConnectHandler nm (device self) w0")
  have ro: "nm_ConnectHandler (recording nm) (device self) (world self)
              = (r, (w, tr0 @ [ConnectHandler_call r]))"
    using w0 o by (simp add: recording_def)
  show ?thesis
  proof (cases r)
    case (Inl e)
    with ro run_validation_not_connected [of "recording nm" self e "(w, tr0 @ [ConnectHandler_call r])"]
    have "calls (snd (run_validation (recording nm) self)) = calls self @ [ConnectHandler_call (Inl e)]"
      by simp
    with tr(1) have t: "tr = [ConnectHandler_call (Inl e)]" by simp
    have "open_count tr = 0" "close_count tr = 0"
      unfolding t by (simp_all add: open_count_def close_count_def)
    with tr w0 o Inl e show ?thesis by auto
  next
    case (Inr c)
    with ro run_validation_calls_opened [of "recording nm" self c "(w, tr0 @ [ConnectHandler_call r])"]
    obtain cmds where
      c: "calls (snd (run_validation (recording nm) self))
            = calls self @ ConnectHandler_call (Inr c) # cmds @ [disconnect_call c]"
         "list_all is_command cmds"
      by auto
    with tr(1) have t: "tr = ConnectHandler_call (Inr c) # cmds @ [disconnect_call c]" by simp
    from commands_not_opened_closed [OF c(2)]
    have "open_count tr = 1" "close_count tr = 1"
      unfolding t by (simp_all add: open_count_def close_count_def)
    moreover have "last tr = disconnect_call c" unfolding t by simp
    ultimately show ?thesis using tr w0 o Inr e by auto
  qed
qed

theorem session_closed_exactly_once_witness:
  "open_count (received (snd (run_validation
       (recording (scripted (Inr 1) end_to_end_device (Inr ()))) router_recorded))) = 1
   \<and> close_count (received (snd (run_validation
       (recording (scripted (Inr 1) end_to_end_device (Inr ()))) router_recorded))) = 1
   \<and> last (received (snd (run_validation
       (recording (scripted (Inr 1) end_to_end_device (Inr ()))) router_recorded)))
       = disconnect_call 1"
proof -
  let ?nm = "scripted (Inr 1) end_to_end_device (Inr ())"
  have o: "nm_ConnectHandler ?nm (device router_recorded) (fst (world router_recorded)) = (Inr 1, Suc 0)"
    by (simp add: scripted_def router_recorded_def init_def)
  have c: "received router_recorded = []" by (simp add: router_recorded_def init_def received_def)
  from session_closed_exactly_once [of ?nm router_recorded] obtain tr where
    t: "received (snd (run_validation (recording ?nm) router_recorded)) = received router_recorded @ tr"
       "\<forall>c w. nm_ConnectHandler ?nm (device router_recorded) (fst (world router_recorded)) = (Inr c, w) \<longrightarrow>
              open_count tr = 1 \<and> close_count tr = 1 \<and> last tr = disconnect_call c"
    by blast
  from t(2) o have "open_count tr = 1 \<and> close_count tr = 1 \<and> last tr = disconnect_call 1"
    by blast
  moreover have "received (snd (run_validation (recording ?nm) router_recorded)) = tr"
    using t(1) c by simp
  ultimately show ?thesis by simp
qed

text \<open>
  Claim C1. Whenever \<open>run_validation\<close> returns a verdict, the verdict is True exactly
  when \<open>connect\<close>, \<open>find_latest_iosxe_file\<close>, \<open>validate_boot_statement\<close> and
  \<open>verify_ios_image_signature\<close> returned True one after the other, each run on the state
  the one before it left. With a transport whose \<open>disconnect\<close> returns, it always
  returns a verdict. Where a step returns False the run ends there: the state it leaves
  is the state after that step with the failure logged and the session closed (after a
  failed opening, with the failure logged only), so no later step has been run.
\<close>

theorem verdict_iff_all_steps_succeed:
  "(\<forall>b. fst (run_validation nm self) = Inr b \<longrightarrow>
        (b \<longleftrightarrow>
            (\<exists>s1 s2 s3 s4. connect nm self = (Inr True, s1)
               \<and> find_latest_iosxe_file nm s1 = (Inr True, s2)
               \<and> validate_boot_statement nm s2 = (Inr True, s3)
               \<and> verify_ios_image_signature nm s3 = (Inr True, s4))))
   \<and> (\<forall>s1. connect nm self = (Inr False, s1) \<longrightarrow>
             run_validation nm self =
               (Inr False,
                logging_error (''Connection to device failed, cannot run validation on ''
                                 @ hostname s1 @ ''.'') s1))
   \<and> ((\<forall>c w. \<exists>w'. nm_disconnect nm c w = (Inr (), w')) \<longrightarrow>
       (fst (run_validation nm self) = Inr True \<longleftrightarrow>
            (\<exists>s1 s2 s3 s4. connect nm self = (Inr True, s1)
               \<and> find_latest_iosxe_file nm s1 = (Inr True, s2)
               \<and> validate_boot_statement nm s2 = (Inr True, s3)
               \<and> verify_ios_image_signature nm s3 = (Inr True, s4)))
       \<and> (fst (run_validation nm self) = Inr True \<or> fst (run_validation nm self) = Inr False)
       \<and> (\<forall>s1 s2. connect nm self = (Inr True, s1)
               \<and> find_latest_iosxe_file nm s1 = (Inr False, s2) \<longrightarrow>
             run_validation nm self =
               (Inr False,
                snd (disconnect nm
                       (logging_error (''Validation failed: No valid IOS-XE image found on ''
                                         @ hostname s2 @ ''.'') s2))))
       \<and> (\<forall>s1 s2 s3. connect nm self = (Inr True, s1)
               \<and> find_latest_iosxe_file nm s1 = (Inr True, s2)
               \<and> validate_boot_statement nm s2 = (Inr False, s3) \<longrightarrow>
             run_validation nm self =
               (Inr False,
                snd (disconnect nm
                       (logging_error (''Validation failed: Boot statement does not match on ''
                                         @ hostname s3) s3))))
       \<and> (\<forall>s1 s2 s3 s4. connect nm self = (Inr True, s1)
               \<and> find_latest_iosxe_file nm s1 = (Inr True, s2)
               \<and> validate_boot_statement nm s2 = (Inr True, s3)
               \<and> verify_ios_image_signature nm s3 = (Inr False, s4) \<longrightarrow>
             run_validation nm self =
               (Inr False,
                logging_error (''Validation failed: Signature verification failed on ''
                                 @ hostname (snd (disconnect nm s4)) @ ''.'')
                  (snd (disconnect nm s4))))
       \<and> (\<forall>s1 s2 s3 s4. connect nm self = (Inr True, s1)
               \<and> find_latest_iosxe_file nm s1 = (Inr True, s2)
               \<and> validate_boot_statement nm s2 = (Inr True, s3)
               \<and> verify_ios_image_signature nm s3 = (Inr True, s4) \<longrightarrow>
             run_validation nm self =
               (Inr True,
                logging_info (''Validation complete: All checks passed successfully on ''
                                @ hostname (snd (disconnect nm s4)) @ ''.'')
                  (snd (disconnect nm s4)))))"
proof -
  have u: "b \<longleftrightarrow> (\<exists>s1 s2 s3 s4. connect nm self = (Inr True, s1)
               \<and> find_latest_iosxe_file nm s1 = (Inr True, s2)
               \<and> validate_boot_statement nm s2 = (Inr True, s3)
               \<and> verify_ios_image_signature nm s3 = (Inr True, s4))"
    if r: "fst (run_validation nm self) = Inr b" for b
  proof (cases b)
    case True
    with r have "fst (run_validation nm self) = Inr True" by simp
    then have "\<exists>s1 s2 s3 s4. connect nm self = (Inr True, s1)
               \<and> find_latest_iosxe_file nm s1 = (Inr True, s2)
               \<and> validate_boot_statement nm s2 = (Inr True, s3)
               \<and> verify_ios_image_signature nm s3 = (Inr True, s4)"
      unfolding run_validation_True_iff by blast
    with True show ?thesis by simp
  next
    case False
    have "\<not> (\<exists>s1 s2 s3 s4. connect nm self = (Inr True, s1)
               \<and> find_latest_iosxe_file nm s1 = (Inr True, s2)
               \<and> validate_boot_statement nm s2 = (Inr True, s3)
               \<and> verify_ios_image_signature nm s3 = (Inr True, s4))"
    proof
      assume "(\<exists>s1 s2 s3 s4. connect nm self = (Inr True, s1)
               \<and> find_latest_iosxe_file nm s1 = (Inr True, s2)
               \<and> validate_boot_statement nm s2 = (Inr True, s3)
               \<and> verify_ios_image_signature nm s3 = (Inr True, s4))"
      then obtain s1 s2 s3 s4 where
        st: "connect nm self = (Inr True, s1)" "find_latest_iosxe_file nm s1 = (Inr True, s2)"
            "validate_boot_statement nm s2 = (Inr True, s3)"
            "verify_ios_image_signature nm s3 = (Inr True, s4)"
        by blast
      from run_validation_fst [OF st] r False show False
        by (cases "fst (disconnect nm s4)") simp_all
    qed
    with False show ?thesis by simp
  qed
  have c: "(\<forall>s1. connect nm self = (Inr False, s1) \<longrightarrow>
             run_validation nm self =
               (Inr False,
                logging_error (''Connection to device failed, cannot run validation on ''
                                 @ hostname s1 @ ''.'') s1))"
    by (simp add: run_validation_def)
  have k: "(fst (run_validation nm self) = Inr True \<longleftrightarrow>
            (\<exists>s1 s2 s3 s4. connect nm self = (Inr True, s1)
               \<and> find_latest_iosxe_file nm s1 = (Inr True, s2)
               \<and> validate_boot_statement nm s2 = (Inr True, s3)
               \<and> verify_ios_image_signature nm s3 = (Inr True, s4)))
       \<and> (fst (run_validation nm self) = Inr True \<or> fst (run_validation nm self) = Inr False)
       \<and> (\<forall>s1 s2. connect nm self = (Inr True, s1)
               \<and> find_latest_iosxe_file nm s1 = (Inr False, s2) \<longrightarrow>
             run_validation nm self =
               (Inr False,
                snd (disconnect nm
                       (logging_error (''Validation failed: No valid IOS-XE image found on ''
                                         @ hostname s2 @ ''.'') s2))))
       \<and> (\<forall>s1 s2 s3. connect nm self = (Inr True, s1)
               \<and> find_latest_iosxe_file nm s1 = (Inr True, s2)
               \<and> validate_boot_statement nm s2 = (Inr False, s3) \<longrightarrow>
             run_validation nm self =
               (Inr False,
                snd (disconnect nm
                       (logging_error (''Validation failed: Boot statement does not match on ''
                                         @ hostname s3) s3))))
       \<and> (\<forall>s1 s2 s3 s4. connect nm self = (Inr True, s1)
               \<and> find_latest_iosxe_file nm s1 = (Inr True, s2)
               \<and> validate_boot_statement nm s2 = (Inr True, s3)
               \<and> verify_ios_image_signature nm s3 = (Inr False, s4) \<longrightarrow>
             run_validation nm self =
               (Inr False,
                logging_error (''Validation failed: Signature verification failed on ''
                                 @ hostname (snd (disconnect nm s4)) @ ''.'')
                  (snd (disconnect nm s4))))
       \<and> (\<forall>s1 s2 s3 s4. connect nm self = (Inr True, s1)
               \<and> find_latest_iosxe_file nm s1 = (Inr True, s2)
               \<and> validate_boot_statement nm s2 = (Inr True, s3)
               \<and> verify_ios_image_signature nm s3 = (Inr True, s4) \<longrightarrow>
             run_validation nm self =
               (Inr True,
                logging_info (''Validation complete: All checks passed successfully on ''
                                @ hostname (snd (disconnect nm s4)) @ ''.'')
                  (snd (disconnect nm s4))))"
    if closes: "\<forall>c w. \<exists>w'. nm_disconnect nm c w = (Inr (), w')"
  proof -
    have cl: "\<exists>w'. nm_disconnect nm c w = (Inr (), w')" for c w using closes by blast
    note p = run_validation_paths [OF cl]
    have d: "fst (disconnect nm s) = Inr ()" for s
      by (rule disconnect_returns [OF cl])
    have a: "fst (run_validation nm self) = Inr True \<longleftrightarrow>
            (\<exists>s1 s2 s3 s4. connect nm self = (Inr True, s1)
               \<and> find_latest_iosxe_file nm s1 = (Inr True, s2)
               \<and> validate_boot_statement nm s2 = (Inr True, s3)
               \<and> verify_ios_image_signature nm s3 = (Inr True, s4))"
      unfolding run_validation_True_iff using d by simp
    obtain b where "fst (run_validation nm self) = Inr b"
      using run_validation_returns_when_closing_returns [OF cl] by blast
    then have b: "fst (run_validation nm self) = Inr True \<or> fst (run_validation nm self) = Inr False"
      by (cases b) simp_all
    from a b p show ?thesis by blast
  qed
  from u c k show ?thesis by blast
qed

theorem verdict_iff_all_steps_succeed_witness:
  "fst (run_validation (scripted (Inr 1) end_to_end_device (Inr ())) router) = Inr True
   \<and> fst (run_validation
          (scripted (Inr 1) (answering ''dir bootflash:'' ''Directory of bootflash:/'') (Inr ()))
          router) = Inr False"
proof -
  let ?nm = "scripted (Inr 1) end_to_end_device (Inr ())"
  let ?no = "scripted (Inr 1) (answering ''dir bootflash:'' ''Directory of bootflash:/'') (Inr ())"
  have cn: "\<exists>w'. nm_disconnect ?nm c w = (Inr (), w')" for c w
    by (simp add: scripted_def)
  have co: "\<exists>w'. nm_disconnect ?no c w = (Inr (), w')" for c w
    by (simp add: scripted_def)
  note tn = verdict_iff_all_steps_succeed [of ?nm router]
  note to = verdict_iff_all_steps_succeed [of ?no router]
  define s1 where "s1 = snd (connect ?nm router)"
  define s2 where "s2 = snd (find_latest_iosxe_file ?nm s1)"
  define s3 where "s3 = snd (validate_boot_statement ?nm s2)"
  define s4 where "s4 = snd (verify_ios_image_signature ?nm s3)"
  from end_to_end_run [of "Inr ()"]
  have e: "connect ?nm router = (Inr True, s1)" "find_latest_iosxe_file ?nm s1 = (Inr True, s2)"
    "validate_boot_statement ?nm s2 = (Inr True, s3)"
    "verify_ios_image_signature ?nm s3 = (Inr True, s4)"
    unfolding Let_def s1_def s2_def s3_def s4_def by (simp_all add: prod_eq_iff)
  then have "\<exists>s1 s2 s3 s4. connect ?nm router = (Inr True, s1)
               \<and> find_latest_iosxe_file ?nm s1 = (Inr True, s2)
               \<and> validate_boot_statement ?nm s2 = (Inr True, s3)
               \<and> verify_ios_image_signature ?nm s3 = (Inr True, s4)"
    by blast
  with tn cn
  have pass: "fst (run_validation ?nm router) = Inr True" by blast
  have o: "nm_ConnectHandler ?no (device router) (world router) = (Inr 1, Suc 0)"
    by (simp add: scripted_def router_def init_def)
  have l: "nm_send_command ?no 1 ''dir bootflash:'' None (Suc 0)
             = (Inr ''Directory of bootflash:/'', Suc (Suc 0))"
    by (simp add: scripted_def answering_def)
  have n: "spec_candidates ''Directory of bootflash:/'' = []"
    by (simp add: spec_candidates_def str_splitlines_def is_linebreak_def)
  define u1 where "u1 = snd (connect ?no router)"
  define u2 where "u2 = snd (find_latest_iosxe_file ?no u1)"
  have f: "connect ?no router = (Inr True, u1)" "find_latest_iosxe_file ?no u1 = (Inr False, u2)"
    using connect_ok [OF o] run_validation_no_image_path [OF o l n]
    unfolding u1_def u2_def by (simp_all add: prod_eq_iff)
  with to co
  have "run_validation ?no router =
               (Inr False,
                snd (disconnect ?no
                       (logging_error (''Validation failed: No valid IOS-XE image found on ''
                                         @ hostname u2 @ ''.'') u2)))"
    by blast
  then have "fst (run_validation ?no router) = Inr False" by simp
  with pass show ?thesis by (rule conjI)
qed



end
